theory Spec2Isabelle
  imports Main "HOL-Library.AList" "HOL-Library.Multiset"
begin

section \<open>JavaScript preliminaries\<close>

text \<open>
  Identifiers of Discord objects (guilds, channels, users, messages) are snowflake strings.
  An emoji is modelled by its Unicode code point, since the characters of HOL are bytes.
\<close>

type_synonym snowflake = string
type_synonym emoji = nat

subsection \<open>\<^verbatim>\<open>String.prototype.includes\<close>\<close>

fun startsWith :: "string \<Rightarrow> string \<Rightarrow> bool" where
  "startsWith s [] = True"
| "startsWith [] (p # ps) = False"
| "startsWith (c # cs) (p # ps) = (c = p \<and> startsWith cs ps)"

fun str_includes :: "string \<Rightarrow> string \<Rightarrow> bool" where
  "str_includes [] sub = (sub = [])"
| "str_includes (c # cs) sub = (startsWith (c # cs) sub \<or> str_includes cs sub)"

subsection \<open>\<^verbatim>\<open>Map\<close>: an association list in insertion order\<close>

text \<open>
  A JavaScript \<^verbatim>\<open>Map\<close> keeps its entries in insertion order; \<^verbatim>\<open>set\<close> on a key
  that is present replaces the value in place, on a new key it appends the entry.
\<close>

type_synonym ('k, 'v) jsmap = "('k \<times> 'v) list"

definition map_has :: "('k, 'v) jsmap \<Rightarrow> 'k \<Rightarrow> bool" where
  "map_has m k = (k \<in> set (map fst m))"

definition map_get :: "('k, 'v) jsmap \<Rightarrow> 'k \<Rightarrow> 'v option" where
  "map_get m k = map_of m k"

definition map_set :: "'k \<Rightarrow> 'v \<Rightarrow> ('k, 'v) jsmap \<Rightarrow> ('k, 'v) jsmap" where
  "map_set k v m = AList.update k v m"

definition map_delete :: "'k \<Rightarrow> ('k, 'v) jsmap \<Rightarrow> ('k, 'v) jsmap" where
  "map_delete k m = AList.delete k m"

text \<open>How many entries a map holds under one key.\<close>

definition entries_for :: "('k, 'v) jsmap \<Rightarrow> 'k \<Rightarrow> nat" where
  "entries_for m k = length (filter (\<lambda>e. fst e = k) m)"

subsection \<open>Timers\<close>

text \<open>
  \<^verbatim>\<open>setTimeout\<close> returns a fresh handle and leaves a pending timer; \<^verbatim>\<open>clearTimeout\<close>
  removes the pending timer with that handle. The callback of a timer is recorded as data
  and run when the event loop fires the timer.
\<close>

record 'c timer =
  handle :: nat
  delay :: nat
  callback :: 'c

definition clearTimeout_in :: "nat \<Rightarrow> 'c timer list \<Rightarrow> 'c timer list" where
  "clearTimeout_in h ts = filter (\<lambda>t. handle t \<noteq> h) ts"

definition pending :: "'c timer list \<Rightarrow> nat \<Rightarrow> bool" where
  "pending ts h = (h \<in> set (map handle ts))"

section \<open>The music bot\<close>

record track =
  uri :: string
  title :: string
  requester :: snowflake

text \<open>
  The player of the queue library, as far as the handlers read it: \<^verbatim>\<open>queue.current\<close>, the
  queued tracks (the queue is an array, \<open>tracks\<close> are its elements), \<^verbatim>\<open>queue.previous\<close>
  (absent or an array) and the flags. The handlers also read a property
  \<^verbatim>\<open>player.queue.tracks\<close>; the queue class of the library defines no such property, so
  \<open>tracksProperty\<close> is \<open>None\<close> (\<^verbatim>\<open>undefined\<close>) for every player that the library hands out.
\<close>

record player =
  voiceId :: "snowflake option"
  textId :: snowflake
  current :: "track option"
  tracks :: "track list"
  tracksProperty :: "track list option"
  previous :: "track list option"
  playing :: bool
  paused :: bool
  destroyed :: bool

text \<open>
  The callbacks that the music bot hands to \<^verbatim>\<open>setTimeout\<close>: the reconnect after a socket
  error, the inactivity check of a guild, and the resume that follows a replay.
\<close>

datatype callback =
    Reconnect string
  | InactivityCheck snowflake
  | ResumeAfterReplay

text \<open>
  The bot's own state. The players belong to the queue library; a handler gets the player
  it works on as an argument. \<^verbatim>\<open>client.autoplay\<close> is not defined in this file, so it may be
  absent.
\<close>

record music =
  twentyFourSeven :: "(snowflake, snowflake) jsmap"
  inactivityTimeouts :: "(snowflake, nat) jsmap"
  autoplay :: "snowflake list option"
  timers :: "callback timer list"
  nextHandle :: nat

definition setTimeout :: "callback \<Rightarrow> nat \<Rightarrow> music \<Rightarrow> nat \<times> music" where
  "setTimeout cb ms s =
     (nextHandle s,
      s\<lparr>timers := timers s @ [\<lparr>handle = nextHandle s, delay = ms, callback = cb\<rparr>],
        nextHandle := Suc (nextHandle s)\<rparr>)"

definition clearTimeout :: "nat \<Rightarrow> music \<Rightarrow> music" where
  "clearTimeout h s = s\<lparr>timers := clearTimeout_in h (timers s)\<rparr>"

definition music_init :: music where
  "music_init =
     \<lparr>twentyFourSeven = [], inactivityTimeouts = [], autoplay = None,
      timers = [], nextHandle = 0\<rparr>"

text \<open>
  What a handler asks of Discord and of the libraries, in the order of the calls: replies
  to the interaction, messages to a channel, and the methods of the player, its queue, its
  node and the search.
\<close>

datatype call =
    Reply string
  | ChannelSend string
  | Search string "snowflake option"
  | QueueAdd "track list"
  | QueueInsert track nat
  | QueueShuffle
  | QueueClear
  | PlayerPlay
  | PlayerPause bool
  | PlayerSkip
  | PlayerSeek nat
  | PlayerDestroy
  | NodeSend string
  | VoiceDisconnect
  | ShoukakuReconnect

subsection \<open>Shuffling\<close>

text \<open>\<^verbatim>\<open>[a[i], a[j]] = [a[j], a[i]]\<close>\<close>

definition swap :: "nat \<Rightarrow> nat \<Rightarrow> 'a list \<Rightarrow> 'a list" where
  "swap i j xs = xs[i := xs ! j, j := xs ! i]"

text \<open>
  The loop \<^verbatim>\<open>for (let i = a.length - 1; i > 0; i--)\<close> with
  \<^verbatim>\<open>j = Math.floor(Math.random() * (i + 1))\<close>. The argument \<open>k\<close> counts the draws of
  \<^verbatim>\<open>Math.random\<close> made so far; the draw \<open>rnd k\<close> gives the index \<open>rnd k mod (i + 1)\<close>,
  which ranges over exactly \<open>0, \<dots>, i\<close>. The loop starts at \<open>i = length a - 1\<close>.
\<close>

fun fisherYates :: "(nat \<Rightarrow> nat) \<Rightarrow> nat \<Rightarrow> nat \<Rightarrow> 'a list \<Rightarrow> 'a list" where
  "fisherYates rnd k 0 a = a"
| "fisherYates rnd k (Suc i) a =
     (let j = rnd k mod (Suc i + 1)
      in fisherYates rnd (Suc k) i (swap (Suc i) j a))"

subsection \<open>Playback events and the inactivity timer\<close>

text \<open>
  \<^verbatim>\<open>playerStart\<close>, as far as it writes the bot's state: a stored inactivity timer of the
  guild is cleared and its entry deleted. The rest of the handler sends the now-playing
  message.
\<close>

definition playerStart :: "snowflake \<Rightarrow> music \<Rightarrow> music" where
  "playerStart guildId s =
     (if map_has (inactivityTimeouts s) guildId then
        (case map_get (inactivityTimeouts s) guildId of
           None \<Rightarrow> s
         | Some h \<Rightarrow>
             (clearTimeout h s)\<lparr>inactivityTimeouts :=
                                  map_delete guildId (inactivityTimeouts s)\<rparr>)
      else s)"

definition genres :: "string list" where
  "genres =
     [''pop'', ''rock'', ''hip hop'', ''dance'', ''electronic'', ''chill'', ''top hits'',
      ''popular'', ''trending'', ''new music'', ''music mix'']"

text \<open>
  What the runtime and the libraries answer during \<^verbatim>\<open>playerEmpty\<close>: whether the text
  channel of the player is cached, the draw of \<^verbatim>\<open>Math.random\<close> for the genre, the search
  result (\<open>None\<close> when the search rejects, \<open>Some None\<close> for no result object,
  \<open>Some (Some ts)\<close> for \<^verbatim>\<open>result.tracks\<close>), the order in which
  \<^verbatim>\<open>sort(() => Math.random() - 0.5)\<close> leaves an array, and whether \<^verbatim>\<open>player.play()\<close>
  rejects.
\<close>

record empty_env =
  channelCached :: bool
  genreDraw :: nat
  searchResult :: "track list option option"
  sortRandom :: "track list \<Rightarrow> track list"
  playRejects :: bool

text \<open>The end of the handler: no timer in 24/7 mode, otherwise one timer of 180000 ms.\<close>

definition teardown :: "snowflake \<Rightarrow> bool \<Rightarrow> music \<Rightarrow> music" where
  "teardown guildId cached s =
     (if map_has (twentyFourSeven s) guildId then s
      else if cached then
        (let (inactivityTimeout, s1) = setTimeout (InactivityCheck guildId) 180000 s
         in s1\<lparr>inactivityTimeouts :=
                 map_set guildId inactivityTimeout (inactivityTimeouts s1)\<rparr>)
      else s)"

text \<open>
  \<^verbatim>\<open>playerEmpty\<close> from the autoplay branch on; before it the handler only edits and sends
  messages. An exception inside the autoplay branch is caught and the handler goes on to
  the teardown.
\<close>

definition playerEmpty ::
  "snowflake \<Rightarrow> player \<Rightarrow> empty_env \<Rightarrow> music \<Rightarrow> call list \<times> music" where
  "playerEmpty guildId player env s =
     (if (case autoplay s of None \<Rightarrow> False | Some gs \<Rightarrow> guildId \<in> set gs) \<and>
         previous player \<noteq> None then
        (let randomGenre = genres ! (genreDraw env mod length genres);
             lastTrack = (case previous player of
                            None \<Rightarrow> None
                          | Some ps \<Rightarrow> if length ps > 0 then Some (last ps) else None);
             searched = [Search randomGenre (map_option requester lastTrack)]
         in case searchResult env of
              None \<Rightarrow> (searched, teardown guildId (channelCached env) s)
            | Some None \<Rightarrow> (searched, teardown guildId (channelCached env) s)
            | Some (Some ts) \<Rightarrow>
                if length ts > 0 then
                  (let tracksToAdd = take 5 (sortRandom env ts);
                       added = searched @ [QueueAdd tracksToAdd]
                   in if \<not> playing player \<and> \<not> paused player then
                        (if playRejects env
                         then (added @ [PlayerPlay], teardown guildId (channelCached env) s)
                         else (added @ [PlayerPlay], s))
                      else (added, s))
                else (searched, teardown guildId (channelCached env) s))
      else ([], teardown guildId (channelCached env) s))"

text \<open>
  The callback of the inactivity timer; \<open>currentPlayer\<close> is
  \<^verbatim>\<open>client.kazagumo.players.get(guildId)\<close> at the time the timer fires.
\<close>

definition inactivityCheck :: "snowflake \<Rightarrow> player option \<Rightarrow> music \<Rightarrow> call list" where
  "inactivityCheck guildId currentPlayer s =
     (case currentPlayer of
        None \<Rightarrow> []
      | Some p \<Rightarrow>
          if (current p = None \<or> tracks p = []) \<and> \<not> playing p \<and>
             \<not> map_has (twentyFourSeven s) guildId
          then [PlayerDestroy, ChannelSend ''Left voice channel due to inactivity.'']
          else [])"

text \<open>A pending timer of the music bot fires.\<close>

definition musicTimerFired :: "nat \<Rightarrow> player option \<Rightarrow> music \<Rightarrow> call list \<times> music" where
  "musicTimerFired h currentPlayer s =
     (case find (\<lambda>t. handle t = h) (timers s) of
        None \<Rightarrow> ([], s)
      | Some t \<Rightarrow>
          (let s1 = s\<lparr>timers := clearTimeout_in h (timers s)\<rparr>
           in case callback t of
                Reconnect name \<Rightarrow> ([ShoukakuReconnect], s1)
              | InactivityCheck guildId \<Rightarrow> (inactivityCheck guildId currentPlayer s1, s1)
              | ResumeAfterReplay \<Rightarrow> ([PlayerPause False], s1)))"

text \<open>The button \<^verbatim>\<open>247toggle\<close>.\<close>

definition toggle247 :: "snowflake \<Rightarrow> snowflake option \<Rightarrow> music \<Rightarrow> call list \<times> music" where
  "toggle247 guildId voice s =
     (case voice of
        None \<Rightarrow> ([Reply ''You must be in a voice channel to toggle 24/7 mode!''], s)
      | Some v \<Rightarrow>
          if map_has (twentyFourSeven s) guildId then
            ([Reply ''24/7 mode has been disabled. I will disconnect after inactivity.''],
             s\<lparr>twentyFourSeven := map_delete guildId (twentyFourSeven s)\<rparr>)
          else
            ([Reply ''24/7 mode has been enabled. I will stay in the voice channel indefinitely.''],
             s\<lparr>twentyFourSeven := map_set guildId v (twentyFourSeven s)\<rparr>))"

subsection \<open>Music control buttons\<close>

text \<open>
  A button interaction: the custom identifier of the button, the user who pressed it and
  the voice channel the member is in, if any.
\<close>

record interaction =
  customId :: string
  userId :: snowflake
  memberVoice :: "snowflake option"

text \<open>
  What the runtime and the libraries answer during a button press: the draws of
  \<^verbatim>\<open>Math.random\<close>, which library calls throw or reject, whether the text channel of the
  player is cached, whether the node can be sent to, and whether the guild is cached with
  the bot in one of its voice channels.
\<close>

record button_env =
  draws :: "nat \<Rightarrow> nat"
  rejects :: "call \<Rightarrow> bool"
  textChannelCached :: bool
  nodeCanSend :: bool
  botInVoice :: bool

text \<open>
  What a button press leaves: the calls made, in order; the queued tracks afterwards; the
  bot's state; and whether the handler ended with an exception, in which case the
  interaction got no reply.
\<close>

record pressed =
  callsMade :: "call list"
  queueAfter :: "track list"
  stateAfter :: music
  threw :: bool

definition finished :: "call list \<Rightarrow> track list \<Rightarrow> music \<Rightarrow> pressed" where
  "finished cs q s = \<lparr>callsMade = cs, queueAfter = q, stateAfter = s, threw = False\<rparr>"

definition aborted :: "call list \<Rightarrow> track list \<Rightarrow> music \<Rightarrow> pressed" where
  "aborted cs q s = \<lparr>callsMade = cs, queueAfter = q, stateAfter = s, threw = True\<rparr>"

definition voiceRefusal :: string where
  "voiceRefusal =
     ''You must be in the same voice channel as the bot to use the music controls!''"

definition requesterRefusal :: string where
  "requesterRefusal =
     ''You cannot use this button! Only the person who requested this song can control it.''"

definition stopRefusal :: string where
  "stopRefusal =
     ''You cannot use this button! Only the person who requested this song can stop it.''"

definition noTrack :: string where
  "noTrack = ''No track is currently playing!''"

definition shuffled :: string where
  "shuffled = ''Shuffled all tracks including the current one!''"

definition shuffleFailed :: string where
  "shuffleFailed = ''Failed to shuffle the queue. Please try again.''"

definition stopped :: string where
  "stopped = ''Music playback has been stopped and the queue has been cleared.''"

text \<open>\<^verbatim>\<open>track && track.requester.id !== interaction.user.id\<close>\<close>

definition notRequester :: "interaction \<Rightarrow> player \<Rightarrow> bool" where
  "notRequester i player =
     (case current player of None \<Rightarrow> False | Some t \<Rightarrow> requester t \<noteq> userId i)"

text \<open>
  The \<^verbatim>\<open>try\<close> block of the \<^verbatim>\<open>shuffle\<close> case once its checks have passed; every exception
  in it ends in the reply that the shuffle failed. The queue methods act on the queue as
  the library defines them: \<^verbatim>\<open>shuffle()\<close> is the same loop over the queue itself,
  \<^verbatim>\<open>clear()\<close> empties the queue, \<^verbatim>\<open>add\<close> appends and has no position argument (the second
  argument of \<^verbatim>\<open>queue.add(track, 0)\<close> is not used), and \<^verbatim>\<open>skip()\<close> only stops the track,
  so the queue moves on with a later event. The spread of \<^verbatim>\<open>player.queue.tracks\<close> throws
  when the property is undefined.
\<close>

definition shuffleBody :: "track \<Rightarrow> player \<Rightarrow> button_env \<Rightarrow> music \<Rightarrow> pressed" where
  "shuffleBody currentSong player env s =
     (let q = tracks player; n = length q
      in if rejects env QueueShuffle then finished [QueueShuffle, Reply shuffleFailed] q s
         else
           (let q1 = fisherYates (draws env) 0 (n - 1) q
            in case tracksProperty player of
                 None \<Rightarrow> finished [QueueShuffle, Reply shuffleFailed] q1 s
               | Some ts \<Rightarrow>
                   (case fisherYates (draws env) (n - 1) (length ts) (currentSong # ts) of
                      [] \<Rightarrow> finished [QueueShuffle, Reply shuffleFailed] q1 s
                    | first # rest \<Rightarrow>
                        if rejects env QueueClear then
                          finished [QueueShuffle, QueueClear, Reply shuffleFailed] q1 s
                        else if rejects env (QueueAdd rest) then
                          finished [QueueShuffle, QueueClear, QueueAdd rest,
                                    Reply shuffleFailed] [] s
                        else if uri first \<noteq> uri currentSong then
                          (if rejects env (QueueInsert first 0) then
                             finished [QueueShuffle, QueueClear, QueueAdd rest,
                                       QueueInsert first 0, Reply shuffleFailed] rest s
                           else if rejects env PlayerSkip then
                             finished [QueueShuffle, QueueClear, QueueAdd rest,
                                       QueueInsert first 0, PlayerSkip, Reply shuffleFailed]
                               (rest @ [first]) s
                           else
                             finished [QueueShuffle, QueueClear, QueueAdd rest,
                                       QueueInsert first 0, PlayerSkip, Reply shuffled]
                               (rest @ [first]) s)
                        else
                          finished [QueueShuffle, QueueClear, QueueAdd rest, Reply shuffled]
                            rest s)))"

text \<open>
  The body of the \<^verbatim>\<open>stop\<close> case once its checks have passed. Every step sits in a
  \<^verbatim>\<open>try\<close> of its own; only a failing \<^verbatim>\<open>queue.clear()\<close> skips the steps after it. The bot
  leaves the voice channel only if \<^verbatim>\<open>player.voiceId\<close> is truthy and the guild is cached
  with the bot in a voice channel.
\<close>

definition stopBody :: "player \<Rightarrow> button_env \<Rightarrow> music \<Rightarrow> pressed" where
  "stopBody player env s =
     (let sent = (if textChannelCached env then [ChannelSend ''Queue Ended''] else [])
      in if \<not> destroyed player then
           (if rejects env QueueClear then
              finished (sent @ [QueueClear, Reply stopped]) (tracks player) s
            else
              finished
                (sent @ [QueueClear] @
                 (if nodeCanSend env then [NodeSend ''stop''] else []) @
                 (if (case voiceId player of None \<Rightarrow> False | Some v \<Rightarrow> v \<noteq> []) \<and>
                     botInVoice env
                  then [VoiceDisconnect] else []) @
                 [Reply stopped])
                [] s)
         else finished (sent @ [Reply stopped]) (tracks player) s)"

text \<open>
  The \<^verbatim>\<open>switch (interaction.customId)\<close>, its cases in the order of the source. Outside the
  \<^verbatim>\<open>try\<close> blocks a call that throws or rejects ends the handler.
\<close>

definition switchButton :: "interaction \<Rightarrow> player \<Rightarrow> button_env \<Rightarrow> music \<Rightarrow> pressed" where
  "switchButton i player env s =
     (if customId i = ''pause'' then
        (if notRequester i player then finished [Reply requesterRefusal] (tracks player) s
         else if rejects env (PlayerPause True) then
           aborted [PlayerPause True] (tracks player) s
         else finished [PlayerPause True,
                        Reply ''Paused the music! Click Resume to continue playback.'']
                (tracks player) s)
      else if customId i = ''resume'' then
        (if notRequester i player then finished [Reply requesterRefusal] (tracks player) s
         else if rejects env (PlayerPause False) then
           aborted [PlayerPause False] (tracks player) s
         else finished [PlayerPause False,
                        Reply ''Resumed the music! Click Pause to pause playback.'']
                (tracks player) s)
      else if customId i = ''pauseresume'' then
        finished
          [Reply ''Pause/Resume button logic has been updated. Please use the new controls.'']
          (tracks player) s
      else if customId i = ''skip'' then
        (if notRequester i player then finished [Reply requesterRefusal] (tracks player) s
         else if rejects env PlayerSkip then aborted [PlayerSkip] (tracks player) s
         else finished [PlayerSkip, Reply ''Skipped to the next track!''] (tracks player) s)
      else if customId i = ''replay'' then
        (case current player of
           None \<Rightarrow> finished [Reply noTrack] (tracks player) s
         | Some currentTrack \<Rightarrow>
             if requester currentTrack \<noteq> userId i then
               finished [Reply requesterRefusal] (tracks player) s
             else if rejects env (PlayerSeek 0) then
               aborted [PlayerSeek 0] (tracks player) s
             else if rejects env (PlayerPause True) then
               aborted [PlayerSeek 0, PlayerPause True] (tracks player) s
             else
               finished [PlayerSeek 0, PlayerPause True,
                         Reply ''Stopped and restarted the current track!'']
                 (tracks player) (snd (setTimeout ResumeAfterReplay 500 s)))
      else if customId i = ''shuffle'' then
        (case current player of
           None \<Rightarrow> finished [Reply noTrack] (tracks player) s
         | Some currentSong \<Rightarrow>
             if requester currentSong \<noteq> userId i then
               finished [Reply requesterRefusal] (tracks player) s
             else if length (tracks player) = 0 then
               finished
                 [Reply ''No additional tracks in queue. Add more songs to create a shuffle mix!'']
                 (tracks player) s
             else shuffleBody currentSong player env s)
      else if customId i = ''stop'' then
        (case current player of
           None \<Rightarrow> finished [Reply noTrack] (tracks player) s
         | Some trackToStop \<Rightarrow>
             if requester trackToStop \<noteq> userId i then
               finished [Reply stopRefusal] (tracks player) s
             else stopBody player env s)
      else finished [] (tracks player) s)"

text \<open>
  The handler of the music control buttons. Only the identifiers in the list pass the
  gate; without a player the handler replies and returns; a member outside the voice
  channel of the player is refused, except for \<^verbatim>\<open>stop\<close>. Without a player there is no
  queue, which the result shows as the empty list.
\<close>

definition musicButton ::
  "interaction \<Rightarrow> player option \<Rightarrow> button_env \<Rightarrow> music \<Rightarrow> pressed" where
  "musicButton i found env s =
     (if customId i \<in> set [''pauseresume'', ''skip'', ''replay'', ''shuffle'', ''stop''] then
        (case found of
           None \<Rightarrow> finished [Reply ''There is no active player in this server!''] [] s
         | Some player \<Rightarrow>
             if (memberVoice i = None \<or> memberVoice i \<noteq> voiceId player) \<and>
                customId i \<noteq> ''stop''
             then finished [Reply voiceRefusal] (tracks player) s
             else switchButton i player env s)
      else finished [] (case found of None \<Rightarrow> [] | Some player \<Rightarrow> tracks player) s)"

subsection \<open>Reconnect on a socket error\<close>

text \<open>
  The \<^verbatim>\<open>error\<close> handler of the audio-node client. The error object carries an optional
  message; a missing message and the empty string are both falsy.
\<close>

definition reconnectDelay :: "string \<Rightarrow> nat" where
  "reconnectDelay message =
     (if str_includes message ''AbortError'' then 5000
      else if str_includes message ''ECONNREFUSED'' \<or> str_includes message ''Connection refused''
        then 15000
      else if str_includes message ''Transport failed'' \<or> str_includes message ''Connection reset''
        then 7500
      else 10000)"

definition shoukaku_error :: "string \<Rightarrow> string option \<Rightarrow> music \<Rightarrow> music" where
  "shoukaku_error name message s =
     (case message of
        None \<Rightarrow> s
      | Some m \<Rightarrow>
          if m = [] then s
          else snd (setTimeout (Reconnect name) (reconnectDelay m) s))"

subsection \<open>Keep-alive routes\<close>

text \<open>
  The three \<^verbatim>\<open>GET /\<close> handlers. Each takes the request and what it reads of the bot:
  the giveaway bot reads \<^verbatim>\<open>client.user?.username\<close>, absent before login.
\<close>

definition music_keepalive :: "'req \<Rightarrow> music \<Rightarrow> string" where
  "music_keepalive req s = ''Bot is running!''"

definition giveaway_keepalive :: "'req \<Rightarrow> string option \<Rightarrow> string" where
  "giveaway_keepalive req username =
     (case username of
        None \<Rightarrow> ''Giveaway Bot''
      | Some u \<Rightarrow> if u = [] then ''Giveaway Bot'' else u) @ '' is running!''"

definition poll_keepalive :: "'req \<Rightarrow> string" where
  "poll_keepalive req = ''Bot is online''"

section \<open>The giveaway bot\<close>

subsection \<open>Data\<close>

record user =
  user_id :: snowflake
  user_bot :: bool

text \<open>
  An entry of \<^verbatim>\<open>activeGiveaways\<close> is \<^verbatim>\<open>{channelId, prize, winners, timeout}\<close>; a snapshot in
  \<^verbatim>\<open>endedGiveaways\<close> is \<^verbatim>\<open>{channelId, prize, winners, endedAt, endMessageId}\<close>. The
  winner count is a JavaScript integer: the prefix command rejects a count below one, the
  slash command stores whatever integer the option holds.
\<close>

record giveaway_info =
  channelId :: snowflake
  prize :: string
  winners :: int

record giveaway = giveaway_info +
  timeout :: nat

record ended_giveaway = giveaway_info +
  endedAt :: nat
  endMessageId :: snowflake

text \<open>The callback of a giveaway timer calls \<^verbatim>\<open>endGiveaway(giveawayMessage.id, channel)\<close>.\<close>

datatype gcallback = EndGiveaway snowflake snowflake

text \<open>The embed that announces the end of a giveaway, as sent to the channel.\<close>

record announcement =
  an_channel :: snowflake
  an_prize :: string
  an_winners :: "string list"

record gstate =
  activeGiveaways :: "(snowflake, giveaway) jsmap"
  endedGiveaways :: "(snowflake, ended_giveaway) jsmap"
  gtimers :: "gcallback timer list"
  gnextHandle :: nat
  announced :: "announcement list"

definition ginit :: gstate where
  "ginit = \<lparr>activeGiveaways = [], endedGiveaways = [], gtimers = [], gnextHandle = 0,
            announced = []\<rparr>"

text \<open>
  What Discord and the runtime answer during one call:
  \<^item> \<open>channelFetched\<close>: whether \<^verbatim>\<open>client.channels.fetch\<close> resolves (reroll only);
  \<^item> \<open>fetchMessage\<close>: \<open>None\<close> when \<^verbatim>\<open>channel.messages.fetch\<close> rejects (the code turns that
    into \<^verbatim>\<open>null\<close>), \<open>Some None\<close> when the message has no reaction with the giveaway emoji or
    the fetch of its users rejects (an exception), \<open>Some (Some us)\<close> for the users who reacted;
  \<^item> \<open>sendResult\<close>: the identifier of the message sent by \<^verbatim>\<open>channel.send\<close>, \<open>None\<close> when it
    rejects;
  \<^item> \<open>random\<close>: the draws of \<^verbatim>\<open>Math.random\<close>; the \<open>i\<close>-th evaluation of
    \<^verbatim>\<open>Math.floor(Math.random() * n)\<close> is \<open>random i mod n\<close>, which ranges over exactly
    \<open>0, \<dots>, n - 1\<close>;
  \<^item> \<open>now\<close>: the clock.
\<close>

record discord =
  channelFetched :: bool
  fetchMessage :: "user list option option"
  sendResult :: "snowflake option"
  random :: "nat \<Rightarrow> nat"
  now :: nat

datatype 'a result = Returned 'a | Threw

subsection \<open>Winner selection\<close>

definition mention :: "snowflake \<Rightarrow> string" where
  "mention i = ''<@'' @ i @ ''>''"

text \<open>\<^verbatim>\<open>participants.splice(winnerIndex, 1)\<close>\<close>

definition splice1 :: "nat \<Rightarrow> 'a list \<Rightarrow> 'a list" where
  "splice1 i xs = take i xs @ drop (Suc i) xs"

text \<open>\<^verbatim>\<open>reactions.filter(user => !user.bot).map(user => user.id)\<close>\<close>

definition participants_of :: "user list \<Rightarrow> snowflake list" where
  "participants_of reactions = map user_id (filter (\<lambda>u. \<not> user_bot u) reactions)"

text \<open>
  The loop \<^verbatim>\<open>for (let i = 0; i < giveaway.winners && participants.length > 0; i++)\<close>, which
  \<^verbatim>\<open>endGiveaway\<close> and \<^verbatim>\<open>rerollGiveaway\<close> both contain.
\<close>

function pickLoop :: "int \<Rightarrow> (nat \<Rightarrow> nat) \<Rightarrow> nat \<Rightarrow> snowflake list \<Rightarrow> string list \<Rightarrow> string list"
  where
  "pickLoop w rnd i participants ws =
     (if int i < w \<and> length participants > 0 then
        (let winnerIndex = rnd i mod length participants
         in pickLoop w rnd (Suc i) (splice1 winnerIndex participants)
              (ws @ [mention (participants ! winnerIndex)]))
      else ws)"
  by pat_completeness auto
termination
proof (relation "measure (\<lambda>(w, rnd, i, participants, ws). length participants)", goal_cases)
  case 1
  show ?case by simp
next
  case (2 w rnd i participants ws winnerIndex)
  then have lt: "rnd i mod length participants < length participants" by simp
  have "length (splice1 (rnd i mod length participants) participants) < length participants"
    unfolding splice1_def using lt by (simp del: mod_less_divisor)
  with 2 show ?case by simp
qed

declare pickLoop.simps [simp del]

subsection \<open>Ending and rerolling\<close>

definition endGiveaway ::
  "snowflake \<Rightarrow> snowflake \<Rightarrow> discord \<Rightarrow> gstate \<Rightarrow> bool result \<times> gstate" where
  "endGiveaway messageId channel env s =
     (case map_get (activeGiveaways s) messageId of
        None \<Rightarrow> (Returned False, s)
      | Some giveaway \<Rightarrow>
          (let s1 = s\<lparr>gtimers := clearTimeout_in (timeout giveaway) (gtimers s),
                      activeGiveaways := map_delete messageId (activeGiveaways s)\<rparr>
           in case fetchMessage env of
                None \<Rightarrow> (Returned False, s1)
              | Some None \<Rightarrow> (Threw, s1)
              | Some (Some reactions) \<Rightarrow>
                  (let ws = pickLoop (winners giveaway) (random env) 0
                              (participants_of reactions) []
                   in case sendResult env of
                        None \<Rightarrow> (Threw, s1)
                      | Some endMessage \<Rightarrow>
                          (Returned True,
                           s1\<lparr>announced := announced s1 @
                                 [\<lparr>an_channel = channel, an_prize = prize giveaway,
                                   an_winners = ws\<rparr>],
                               endedGiveaways :=
                                 map_set messageId
                                   \<lparr>channelId = channel, prize = prize giveaway,
                                    winners = winners giveaway, endedAt = now env,
                                    endMessageId = endMessage\<rparr>
                                   (endedGiveaways s1)\<rparr>))))"

record reroll_result =
  r_prize :: string
  r_winners :: "string list"
  r_channel :: snowflake
  r_endMessageId :: snowflake

definition rerollGiveaway :: "snowflake \<Rightarrow> discord \<Rightarrow> gstate \<Rightarrow> reroll_result option result"
  where
  "rerollGiveaway messageId env s =
     (case map_get (endedGiveaways s) messageId of
        None \<Rightarrow> Returned None
      | Some giveaway \<Rightarrow>
          if \<not> channelFetched env then Threw
          else (case fetchMessage env of
                  None \<Rightarrow> Returned None
                | Some None \<Rightarrow> Threw
                | Some (Some reactions) \<Rightarrow>
                    Returned (Some
                      \<lparr>r_prize = prize giveaway,
                       r_winners = pickLoop (winners giveaway) (random env) 0
                                     (participants_of reactions) [],
                       r_channel = channelId giveaway,
                       r_endMessageId = endMessageId giveaway\<rparr>)))"

subsection \<open>Commands and events\<close>

text \<open>
  What Discord and the runtime answer while a giveaway is started: the identifier of the
  giveaway message sent by \<^verbatim>\<open>channel.send\<close> (\<open>None\<close> when it rejects), whether
  \<^verbatim>\<open>giveawayMessage.react\<close> resolves, and the delay that \<^verbatim>\<open>ms(duration)\<close> gives the timer.
\<close>

record start_env =
  sentMessage :: "snowflake option"
  reacted :: bool
  ms :: "string \<Rightarrow> nat"

text \<open>
  The block that both start commands run once their checks have passed: send the embed,
  react, set the timer, store the entry. A rejected promise leaves the handler before the
  timer is set.
\<close>

definition start_block ::
  "snowflake \<Rightarrow> string \<Rightarrow> string \<Rightarrow> int \<Rightarrow> start_env \<Rightarrow> gstate \<Rightarrow> gstate" where
  "start_block channel duration prz cnt env s =
     (case sentMessage env of
        None \<Rightarrow> s
      | Some giveawayMessage \<Rightarrow>
          if \<not> reacted env then s
          else
            (let h = gnextHandle s;
                 s1 = s\<lparr>gtimers := gtimers s @
                            [\<lparr>handle = h, delay = ms env duration,
                              callback = EndGiveaway giveawayMessage channel\<rparr>],
                        gnextHandle := Suc h\<rparr>
             in s1\<lparr>activeGiveaways :=
                      map_set giveawayMessage
                        \<lparr>channelId = channel, prize = prz, winners = cnt, timeout = h\<rparr>
                        (activeGiveaways s1)\<rparr>))"

text \<open>
  The prefix command \<^verbatim>\<open>start\<close>, after the split of the message into arguments: whether
  the member may manage messages, the first mentioned channel, \<^verbatim>\<open>args[1]\<close>, the joined
  prize words and the result of \<^verbatim>\<open>parseInt\<close> (\<open>None\<close> for \<^verbatim>\<open>NaN\<close>).
\<close>

definition messageCreate_start ::
  "bool \<Rightarrow> snowflake option \<Rightarrow> string option \<Rightarrow> string \<Rightarrow> int option \<Rightarrow> start_env \<Rightarrow>
   gstate \<Rightarrow> gstate" where
  "messageCreate_start allowed channel duration prz parsed env s =
     (if \<not> allowed then s
      else case channel of
        None \<Rightarrow> s
      | Some ch \<Rightarrow>
          (case duration of
             None \<Rightarrow> s
           | Some d \<Rightarrow>
               if d = [] then s
               else if prz = [] then s
               else (case parsed of
                       None \<Rightarrow> s
                     | Some cnt \<Rightarrow>
                         if cnt < 1 then s else start_block ch d prz cnt env s)))"

text \<open>The slash command \<^verbatim>\<open>/start\<close>: only the permission is checked.\<close>

definition interaction_start ::
  "bool \<Rightarrow> snowflake \<Rightarrow> string \<Rightarrow> string \<Rightarrow> int \<Rightarrow> start_env \<Rightarrow> gstate \<Rightarrow> gstate" where
  "interaction_start allowed channel duration prz cnt env s =
     (if \<not> allowed then s else start_block channel duration prz cnt env s)"

text \<open>The two \<^verbatim>\<open>end\<close> commands; the channel is the one the command was sent in.\<close>

definition messageCreate_end ::
  "bool \<Rightarrow> snowflake option \<Rightarrow> snowflake \<Rightarrow> discord \<Rightarrow> gstate \<Rightarrow> gstate" where
  "messageCreate_end allowed messageId channel env s =
     (if \<not> allowed then s
      else case messageId of
        None \<Rightarrow> s
      | Some m \<Rightarrow> snd (endGiveaway m channel env s))"

definition interaction_end ::
  "bool \<Rightarrow> snowflake \<Rightarrow> snowflake \<Rightarrow> discord \<Rightarrow> gstate \<Rightarrow> gstate" where
  "interaction_end allowed messageId channel env s =
     (if \<not> allowed then s else snd (endGiveaway messageId channel env s))"

text \<open>A pending timer fires: it stops being pending and its callback runs.\<close>

definition timerFired :: "nat \<Rightarrow> discord \<Rightarrow> gstate \<Rightarrow> gstate" where
  "timerFired h env s =
     (case find (\<lambda>t. handle t = h) (gtimers s) of
        None \<Rightarrow> s
      | Some t \<Rightarrow>
          (case callback t of
             EndGiveaway messageId channel \<Rightarrow>
               snd (endGiveaway messageId channel env
                      (s\<lparr>gtimers := clearTimeout_in h (gtimers s)\<rparr>))))"

text \<open>
  The events of the giveaway bot. The commands \<^verbatim>\<open>reroll\<close>, \<^verbatim>\<open>stats\<close>, \<^verbatim>\<open>invite\<close>,
  \<^verbatim>\<open>support\<close> and \<^verbatim>\<open>help\<close> write neither map and set no timer.
\<close>

datatype gevent =
    PrefixStart bool "snowflake option" "string option" string "int option" start_env
  | SlashStart bool snowflake string string int start_env
  | PrefixEnd bool "snowflake option" snowflake discord
  | SlashEnd bool snowflake snowflake discord
  | TimerFired nat discord
  | OtherCommand

fun step :: "gevent \<Rightarrow> gstate \<Rightarrow> gstate" where
  "step (PrefixStart allowed channel duration prz parsed env) s =
     messageCreate_start allowed channel duration prz parsed env s"
| "step (SlashStart allowed channel duration prz cnt env) s =
     interaction_start allowed channel duration prz cnt env s"
| "step (PrefixEnd allowed messageId channel env) s =
     messageCreate_end allowed messageId channel env s"
| "step (SlashEnd allowed messageId channel env) s =
     interaction_end allowed messageId channel env s"
| "step (TimerFired h env) s = timerFired h env s"
| "step OtherCommand s = s"

text \<open>
  Discord never issues a message identifier twice, so the giveaway message that a start
  command sends has an identifier that keys neither map.
\<close>

definition fresh_message :: "start_env \<Rightarrow> gstate \<Rightarrow> bool" where
  "fresh_message env s =
     (case sentMessage env of
        None \<Rightarrow> True
      | Some m \<Rightarrow> \<not> map_has (activeGiveaways s) m \<and> \<not> map_has (endedGiveaways s) m)"

fun possible :: "gevent \<Rightarrow> gstate \<Rightarrow> bool" where
  "possible (PrefixStart allowed channel duration prz parsed env) s = fresh_message env s"
| "possible (SlashStart allowed channel duration prz cnt env) s = fresh_message env s"
| "possible e s = True"

inductive reachable :: "gstate \<Rightarrow> bool" where
  init: "reachable ginit"
| step: "reachable s \<Longrightarrow> possible e s \<Longrightarrow> reachable (step e s)"

text \<open>Whether an event is the firing of the giveaway's timer or a permitted end command for it.\<close>

fun ends :: "gevent \<Rightarrow> snowflake \<Rightarrow> giveaway \<Rightarrow> bool" where
  "ends (TimerFired h env) m g = (h = timeout g)"
| "ends (PrefixEnd allowed messageId channel env) m g = (allowed \<and> messageId = Some m)"
| "ends (SlashEnd allowed messageId channel env) m g = (allowed \<and> messageId = m)"
| "ends e m g = False"

text \<open>Whether an event is a start command whose giveaway message gets the identifier \<open>m\<close>.\<close>

fun sends :: "gevent \<Rightarrow> snowflake \<Rightarrow> bool" where
  "sends (PrefixStart allowed channel duration prz parsed env) m = (sentMessage env = Some m)"
| "sends (SlashStart allowed channel duration prz cnt env) m = (sentMessage env = Some m)"
| "sends e m = False"

text \<open>A sequence of events, oldest first.\<close>

fun run :: "gevent list \<Rightarrow> gstate \<Rightarrow> gstate" where
  "run [] s = s"
| "run (e # es) s = run es (step e s)"

text \<open>
  The bookkeeping invariant of the giveaway bot: no key occurs twice in a map, timer
  handles are unique and already issued, every active giveaway holds the handle of a
  pending timer whose callback ends that giveaway, every pending timer belongs to the
  active giveaway that its callback names, and no identifier keys both maps.
\<close>

definition ginv :: "gstate \<Rightarrow> bool" where
  "ginv s \<longleftrightarrow>
     distinct (map fst (activeGiveaways s)) \<and>
     distinct (map fst (endedGiveaways s)) \<and>
     distinct (map handle (gtimers s)) \<and>
     (\<forall>t \<in> set (gtimers s). handle t < gnextHandle s) \<and>
     (\<forall>e \<in> set (activeGiveaways s). \<exists>t \<in> set (gtimers s).
        handle t = timeout (snd e) \<and> callback t = EndGiveaway (fst e) (channelId (snd e))) \<and>
     (\<forall>t \<in> set (gtimers s).
        case callback t of
          EndGiveaway m ch \<Rightarrow>
            (case map_get (activeGiveaways s) m of
               None \<Rightarrow> False
             | Some g \<Rightarrow> timeout g = handle t)) \<and>
     (\<forall>e \<in> set (activeGiveaways s). \<not> map_has (endedGiveaways s) (fst e))"

subsection \<open>Sample inputs\<close>

definition sample_users :: "user list" where
  "sample_users =
     [\<lparr>user_id = ''101'', user_bot = False\<rparr>, \<lparr>user_id = ''102'', user_bot = True\<rparr>,
      \<lparr>user_id = ''103'', user_bot = False\<rparr>]"

definition sample_discord :: discord where
  "sample_discord =
     \<lparr>channelFetched = True, fetchMessage = Some (Some sample_users),
      sendResult = Some ''900'', random = id, now = 0\<rparr>"

definition sample_unfetched :: discord where
  "sample_unfetched = sample_discord\<lparr>fetchMessage := None\<rparr>"

definition sample_start :: start_env where
  "sample_start = \<lparr>sentMessage = Some ''500'', reacted = True, ms = (\<lambda>d. 60000)\<rparr>"

subsection \<open>Sample inputs of the music bot\<close>

definition sample_track :: "string \<Rightarrow> snowflake \<Rightarrow> track" where
  "sample_track u r = \<lparr>uri = u, title = u, requester = r\<rparr>"

definition sample_idle :: player where
  "sample_idle =
     \<lparr>voiceId = Some ''40'', textId = ''41'', current = None, tracks = [],
      tracksProperty = None, previous = Some [sample_track ''u0'' ''7''], playing = False,
      paused = False, destroyed = False\<rparr>"

definition sample_found :: "track list" where
  "sample_found =
     [sample_track ''a'' ''7'', sample_track ''b'' ''7'', sample_track ''c'' ''7'',
      sample_track ''d'' ''7'', sample_track ''e'' ''7'', sample_track ''f'' ''7'',
      sample_track ''g'' ''7'']"

definition sample_empty_env :: empty_env where
  "sample_empty_env =
     \<lparr>channelCached = True, genreDraw = 14, searchResult = Some (Some sample_found),
      sortRandom = rev, playRejects = False\<rparr>"

definition sample_autoplay :: music where
  "sample_autoplay = music_init\<lparr>autoplay := Some [''9'']\<rparr>"

text \<open>
  A player whose current song was requested by user 7 and whose queue holds the same song
  (the same \<^verbatim>\<open>uri\<close>) requested by user 8, and another song.
\<close>

definition sample_playing :: player where
  "sample_playing =
     \<lparr>voiceId = Some ''40'', textId = ''41'', current = Some (sample_track ''u1'' ''7''),
      tracks = [sample_track ''u1'' ''8'', sample_track ''u2'' ''8''], tracksProperty = None,
      previous = Some [], playing = True, paused = False, destroyed = False\<rparr>"

definition sample_button_env :: button_env where
  "sample_button_env =
     \<lparr>draws = (\<lambda>k. 0), rejects = (\<lambda>c. False), textChannelCached = True,
      nodeCanSend = True, botInVoice = True\<rparr>"

definition sample_press :: "string \<Rightarrow> snowflake \<Rightarrow> snowflake option \<Rightarrow> interaction" where
  "sample_press b u v = \<lparr>customId = b, userId = u, memberVoice = v\<rparr>"

section \<open>The poll bot\<close>

text \<open>The regional indicator symbols A to T and the two thumbs, as code points.\<close>

definition emojiMap :: "emoji list" where
  "emojiMap =
     [127462, 127463, 127464, 127465, 127466,
      127467, 127468, 127469, 127470, 127471,
      127472, 127473, 127474, 127475, 127476,
      127477, 127478, 127479, 127480, 127481]"

definition thumbsUp :: emoji where
  "thumbsUp = 128077"

definition thumbsDown :: emoji where
  "thumbsDown = 128078"

record choice =
  choice_emoji :: emoji
  choice_label :: string

text \<open>\<^verbatim>\<open>`choice_${String.fromCharCode(97 + i)}`\<close>\<close>

definition choiceKey :: "nat \<Rightarrow> string" where
  "choiceKey i = ''choice_'' @ [char_of (97 + i)]"

text \<open>
  The loop \<^verbatim>\<open>for (let i = 0; i < 20; i++)\<close>; \<open>getString\<close> is
  \<^verbatim>\<open>interaction.options.getString\<close>, which gives \<^verbatim>\<open>null\<close> for an option that was not
  provided. The empty string is falsy as well.
\<close>

function collectChoices ::
  "(string \<Rightarrow> string option) \<Rightarrow> nat \<Rightarrow> choice list \<Rightarrow> choice list" where
  "collectChoices getString i choices =
     (if i < 20 then
        collectChoices getString (Suc i)
          (case getString (choiceKey i) of
             None \<Rightarrow> choices
           | Some v \<Rightarrow>
               if v = [] then choices
               else choices @ [\<lparr>choice_emoji = emojiMap ! i, choice_label = v\<rparr>])
      else choices)"
  by pat_completeness auto
termination
  by (relation "measure (\<lambda>(getString, i, choices). 20 - i)") auto

declare collectChoices.simps [simp del]

text \<open>
  The length of the field text that the handler builds, in the units that JavaScript
  counts (a character of a string of the model stands for one UTF-16 code unit, and each
  emoji used here takes two). With at least two choices every choice contributes
  \<^verbatim>\<open>`\n\n${c.emoji} **${c.label}**`\<close>; otherwise the text is the fixed yes/no text.
\<close>

definition fieldContentLength :: "choice list \<Rightarrow> nat" where
  "fieldContentLength choices =
     (if length choices \<ge> 2
      then sum_list (map (\<lambda>c. 2 + 2 + 3 + length (choice_label c) + 2) choices)
      else 2 + 2 + 8 + 2 + 2 + 7)"

text \<open>
  What Discord answers: whether \<^verbatim>\<open>interaction.reply\<close> resolves, and the index of the first
  \<^verbatim>\<open>reply.react\<close> that rejects, if any.
\<close>

record poll_env =
  replyResolves :: bool
  reactRejectsAt :: "nat option"

text \<open>
  How the handler ends: it ignores another interaction; the embed builder throws when the
  description \<^verbatim>\<open>`**${question}**`\<close> exceeds 4096 or the field text exceeds 1024; the reply
  may be rejected; otherwise the reply is sent with the choices in its embed, and the
  reactions listed are those added to it, in order, up to the first rejected one.
\<close>

datatype poll_result =
    Ignored
  | BuilderThrew
  | ReplyRejected
  | Replied "choice list" "emoji list"

definition pollInteraction ::
  "bool \<Rightarrow> string \<Rightarrow> (string \<Rightarrow> string option) \<Rightarrow> poll_env \<Rightarrow> poll_result" where
  "pollInteraction isChatInputCommand commandName getString env =
     (if \<not> isChatInputCommand \<or> commandName \<noteq> ''poll'' then Ignored
      else
        (let question = getString ''question'';
             choices = collectChoices getString 0 []
         in if 2 + (case question of None \<Rightarrow> 4 | Some q \<Rightarrow> length q) + 2 > 4096
            then BuilderThrew
            else if fieldContentLength choices > 1024 then BuilderThrew
            else if \<not> replyResolves env then ReplyRejected
            else
              (let wanted = (if length choices \<ge> 2 then map choice_emoji choices
                             else [thumbsUp, thumbsDown])
               in Replied choices
                    (case reactRejectsAt env of
                       None \<Rightarrow> wanted
                     | Some k \<Rightarrow> take k wanted))))"

text \<open>Whether the option with index \<open>i\<close> was provided (with a non-empty text).\<close>

definition provided :: "(string \<Rightarrow> string option) \<Rightarrow> nat \<Rightarrow> bool" where
  "provided getString i =
     (case getString (choiceKey i) of None \<Rightarrow> False | Some v \<Rightarrow> v \<noteq> [])"

definition sample_options :: "string \<Rightarrow> string option" where
  "sample_options =
     [''question'' \<mapsto> ''Lunch?'', ''choice_a'' \<mapsto> ''Pizza'', ''choice_c'' \<mapsto> ''Sushi'',
      ''choice_t'' \<mapsto> ''Tacos'']"

definition sample_poll_env :: poll_env where
  "sample_poll_env = \<lparr>replyResolves = True, reactRejectsAt = None\<rparr>"

section \<open>Properties\<close>

subsection \<open>Strings\<close>

lemma startsWith_iff: "startsWith s p \<longleftrightarrow> (\<exists>post. s = p @ post)"
  by (induction s p rule: startsWith.induct) auto

lemma includes_iff: "str_includes s sub \<longleftrightarrow> (\<exists>pre post. s = pre @ sub @ post)"
proof (induction s)
  case Nil
  then show ?case by auto
next
  case (Cons c cs)
  show ?case
  proof
    assume "str_includes (c # cs) sub"
    then consider "startsWith (c # cs) sub" | "str_includes cs sub" by auto
    then show "\<exists>pre post. c # cs = pre @ sub @ post"
    proof cases
      case 1
      then obtain post where "c # cs = sub @ post" by (auto simp: startsWith_iff)
      then have "c # cs = [] @ sub @ post" by simp
      then show ?thesis by blast
    next
      case 2
      then obtain pre post where "cs = pre @ sub @ post" using Cons.IH by blast
      then have "c # cs = (c # pre) @ sub @ post" by simp
      then show ?thesis by blast
    qed
  next
    assume "\<exists>pre post. c # cs = pre @ sub @ post"
    then obtain pre post where eq: "c # cs = pre @ sub @ post" by blast
    show "str_includes (c # cs) sub"
    proof (cases pre)
      case Nil
      with eq have "startsWith (c # cs) sub" by (auto simp: startsWith_iff)
      then show ?thesis by simp
    next
      case (Cons a pre')
      with eq have "cs = pre' @ sub @ post" by simp
      then have "str_includes cs sub" using Cons.IH by blast
      then show ?thesis by simp
    qed
  qed
qed

subsection \<open>Winner selection\<close>

lemma splice1_length: "i < length xs \<Longrightarrow> length (splice1 i xs) = length xs - 1"
  by (simp add: splice1_def)

lemma splice1_set: "set (splice1 i xs) \<subseteq> set xs"
  unfolding splice1_def by (auto dest: in_set_takeD in_set_dropD)

lemma splice1_distinct: "distinct xs \<Longrightarrow> distinct (splice1 i xs)"
  unfolding splice1_def
  by (auto dest: in_set_takeD in_set_dropD simp: set_take_disj_set_drop_if_distinct)

lemma splice1_removed:
  assumes "distinct xs" "i < length xs"
  shows "xs ! i \<notin> set (splice1 i xs)"
proof -
  have "xs = take i xs @ xs ! i # drop (Suc i) xs"
    using assms(2) by (simp add: id_take_nth_drop)
  then have "distinct (take i xs @ xs ! i # drop (Suc i) xs)"
    using assms(1) by simp
  then show ?thesis by (auto simp: splice1_def)
qed

lemma mention_inj: "mention a = mention b \<longleftrightarrow> a = b"
  by (simp add: mention_def)

lemma pickLoop_chosen:
  "distinct ps \<Longrightarrow>
   \<exists>chosen. pickLoop w rnd i ps ws = ws @ map mention chosen \<and> distinct chosen \<and>
     set chosen \<subseteq> set ps \<and> int (length chosen) = min (max 0 (w - int i)) (int (length ps))"
proof (induction w rnd i ps ws rule: pickLoop.induct)
  case (1 w rnd i ps ws)
  show ?case
  proof (cases "int i < w \<and> length ps > 0")
    case False
    then have "pickLoop w rnd i ps ws = ws @ map mention []"
      by (subst pickLoop.simps) auto
    moreover have "int (length ([]::snowflake list)) = min (max 0 (w - int i)) (int (length ps))"
      using False by auto
    ultimately show ?thesis by (metis distinct.simps(1) empty_subsetI list.set(1))
  next
    case True
    define k where "k = rnd i mod length ps"
    have k: "k < length ps" using True by (simp add: k_def)
    have d: "distinct (splice1 k ps)" using "1.prems" by (rule splice1_distinct)
    from "1.IH"[OF True k_def[symmetric, THEN sym] d]
    obtain chosen where c:
      "pickLoop w rnd (Suc i) (splice1 k ps) (ws @ [mention (ps ! k)]) =
         (ws @ [mention (ps ! k)]) @ map mention chosen"
      "distinct chosen" "set chosen \<subseteq> set (splice1 k ps)"
      "int (length chosen) = min (max 0 (w - int (Suc i))) (int (length (splice1 k ps)))"
      by blast
    have eq: "pickLoop w rnd i ps ws = ws @ map mention (ps ! k # chosen)"
      using True c(1) by (subst pickLoop.simps) (simp add: k_def Let_def)
    have notin: "ps ! k \<notin> set chosen"
      using splice1_removed[OF "1.prems" k] c(3) by blast
    have sub: "set (ps ! k # chosen) \<subseteq> set ps"
      using c(3) splice1_set[of k ps] k by auto
    have len: "int (length (ps ! k # chosen)) = min (max 0 (w - int i)) (int (length ps))"
      using c(4) True k by (simp add: splice1_length) 
    show ?thesis using eq notin c(2) sub len
      by (metis distinct.simps(2))
  qed
qed

lemmas giveaway_defs = interaction_start_def messageCreate_start_def start_block_def
  timerFired_def endGiveaway_def rerollGiveaway_def ginit_def sample_start_def sample_discord_def
  sample_users_def map_get_def map_set_def map_delete_def map_has_def clearTimeout_in_def
  participants_of_def mention_def splice1_def Let_def interaction_end_def messageCreate_end_def
  sample_unfetched_def

text \<open>
  What holds of the winner selection. The users who reacted with the giveaway emoji form
  a collection keyed by user identifier, so their identifiers are pairwise distinct. When
  a giveaway ends, and when it is rerolled, the winners are drawn from the non-bot users by
  random indices without replacement: the winners are pairwise distinct, each is the
  mention of a non-bot user who reacted, and their number is the minimum of the configured
  winner count and the number of non-bot participants when the configured count is not
  negative, and zero when it is negative.
\<close>

lemma winners_drawn:
  assumes "distinct (map user_id reactions)"
    and "fetchMessage env = Some (Some reactions)"
  shows
    "(map_get (activeGiveaways s) m = Some g \<and> endGiveaway m ch env s = (Returned True, s') \<longrightarrow>
        (\<exists>ws. announced s' =
                announced s @ [\<lparr>an_channel = ch, an_prize = prize g, an_winners = ws\<rparr>] \<and>
              distinct ws \<and>
              (\<forall>x \<in> set ws. \<exists>u \<in> set reactions. \<not> user_bot u \<and> x = mention (user_id u)) \<and>
              int (length ws) =
                min (max 0 (winners g)) (int (length (filter (\<lambda>u. \<not> user_bot u) reactions))))) \<and>
     (map_get (endedGiveaways s) m = Some e \<and> rerollGiveaway m env s = Returned (Some r) \<longrightarrow>
        distinct (r_winners r) \<and>
        (\<forall>x \<in> set (r_winners r). \<exists>u \<in> set reactions. \<not> user_bot u \<and> x = mention (user_id u)) \<and>
        int (length (r_winners r)) =
          min (max 0 (winners e)) (int (length (filter (\<lambda>u. \<not> user_bot u) reactions))))"
proof -
  have dp: "distinct (participants_of reactions)"
    using assms(1) by (simp add: participants_of_def distinct_map_filter)
  have key: "\<exists>ws. pickLoop w (random env) 0 (participants_of reactions) [] = ws \<and>
      distinct ws \<and>
      (\<forall>x \<in> set ws. \<exists>u \<in> set reactions. \<not> user_bot u \<and> x = mention (user_id u)) \<and>
      int (length ws) = min (max 0 w) (int (length (filter (\<lambda>u. \<not> user_bot u) reactions)))" for w
  proof -
    from pickLoop_chosen[OF dp, of w "random env" 0 "[]"]
    obtain chosen where c:
      "pickLoop w (random env) 0 (participants_of reactions) [] = map mention chosen"
      "distinct chosen" "set chosen \<subseteq> set (participants_of reactions)"
      "int (length chosen) = min (max 0 w) (int (length (participants_of reactions)))"
      by auto
    have "distinct (map mention chosen)"
      using c(2) by (simp add: distinct_map inj_on_def mention_inj)
    moreover have "\<forall>x \<in> set (map mention chosen). \<exists>u \<in> set reactions. \<not> user_bot u \<and> x = mention (user_id u)"
      using c(3) by (auto simp: participants_of_def)
    moreover have "int (length (map mention chosen)) =
        min (max 0 w) (int (length (filter (\<lambda>u. \<not> user_bot u) reactions)))"
      using c(4) by (simp add: participants_of_def)
    ultimately show ?thesis using c(1) by simp
  qed
  show ?thesis
  proof (rule conjI; rule impI)
    assume h: "map_get (activeGiveaways s) m = Some g \<and> endGiveaway m ch env s = (Returned True, s')"
    from key[of "winners g"] obtain ws where ws:
      "pickLoop (winners g) (random env) 0 (participants_of reactions) [] = ws"
      "distinct ws"
      "\<forall>x \<in> set ws. \<exists>u \<in> set reactions. \<not> user_bot u \<and> x = mention (user_id u)"
      "int (length ws) = min (max 0 (winners g)) (int (length (filter (\<lambda>u. \<not> user_bot u) reactions)))"
      by blast
    have "announced s' = announced s @ [\<lparr>an_channel = ch, an_prize = prize g, an_winners = ws\<rparr>]"
      using h assms(2) ws(1)
      by (auto simp: endGiveaway_def Let_def split: option.splits)
    then show "\<exists>ws. announced s' =
                announced s @ [\<lparr>an_channel = ch, an_prize = prize g, an_winners = ws\<rparr>] \<and>
              distinct ws \<and>
              (\<forall>x \<in> set ws. \<exists>u \<in> set reactions. \<not> user_bot u \<and> x = mention (user_id u)) \<and>
              int (length ws) =
                min (max 0 (winners g)) (int (length (filter (\<lambda>u. \<not> user_bot u) reactions)))"
      using ws(2,3,4) by blast
  next
    assume h: "map_get (endedGiveaways s) m = Some e \<and> rerollGiveaway m env s = Returned (Some r)"
    then have "r_winners r = pickLoop (winners e) (random env) 0 (participants_of reactions) []"
      using assms(2) by (auto simp: rerollGiveaway_def split: if_splits)
    with key[of "winners e"] show "distinct (r_winners r) \<and>
        (\<forall>x \<in> set (r_winners r). \<exists>u \<in> set reactions. \<not> user_bot u \<and> x = mention (user_id u)) \<and>
        int (length (r_winners r)) =
          min (max 0 (winners e)) (int (length (filter (\<lambda>u. \<not> user_bot u) reactions)))"
      by simp
  qed
qed

lemma winners_drawn_example:
  "distinct (map user_id sample_users) \<and>
   fetchMessage sample_discord = Some (Some sample_users) \<and>
   (\<exists>ws. announced (snd (endGiveaway ''500'' ''77'' sample_discord
              (step (SlashStart True ''77'' ''1m'' ''Nitro'' 1 sample_start) ginit))) =
            [\<lparr>an_channel = ''77'', an_prize = ''Nitro'', an_winners = ws\<rparr>] \<and>
          distinct ws \<and> int (length ws) = 1) \<and>
   (\<exists>r. rerollGiveaway ''500'' sample_discord
           (step (TimerFired 0 sample_discord)
              (step (SlashStart True ''77'' ''1m'' ''Nitro'' 1 sample_start) ginit)) =
           Returned (Some r) \<and>
         distinct (r_winners r) \<and> int (length (r_winners r)) = 1)"
proof -
  have d: "distinct (map user_id sample_users)"
    by (simp add: sample_users_def)
  have f: "fetchMessage sample_discord = Some (Some sample_users)"
    by (simp add: sample_discord_def)
  have n: "int (length (filter (\<lambda>u. \<not> user_bot u) sample_users)) = 2"
    by (simp add: sample_users_def)
  let ?s = "step (SlashStart True ''77'' ''1m'' ''Nitro'' 1 sample_start) ginit"
  let ?g = "\<lparr>channelId = ''77'', prize = ''Nitro'', winners = 1, timeout = 0\<rparr>"
  let ?e = "\<lparr>channelId = ''77'', prize = ''Nitro'', winners = 1, endedAt = 0,
            endMessageId = ''900''\<rparr>"
  have g: "map_get (activeGiveaways ?s) ''500'' = Some ?g"
    by (simp add: giveaway_defs)
  have a0: "announced ?s = []"
    by (simp add: giveaway_defs)
  have r: "fst (endGiveaway ''500'' ''77'' sample_discord ?s) = Returned True"
    by (simp add: giveaway_defs)
  have e: "map_get (endedGiveaways (step (TimerFired 0 sample_discord) ?s)) ''500'' = Some ?e"
    by (simp add: giveaway_defs)
  obtain rr where rr: "rerollGiveaway ''500'' sample_discord
      (step (TimerFired 0 sample_discord) ?s) = Returned (Some rr)"
    by (simp add: giveaway_defs)
  let ?s' = "snd (endGiveaway ''500'' ''77'' sample_discord ?s)"
  have p1: "map_get (activeGiveaways ?s) ''500'' = Some ?g \<and>
      endGiveaway ''500'' ''77'' sample_discord ?s = (Returned True, ?s')"
    using g r by (simp add: prod_eq_iff)
  have "\<exists>ws. announced ?s' =
      announced ?s @ [\<lparr>an_channel = ''77'', an_prize = prize ?g, an_winners = ws\<rparr>] \<and>
      distinct ws \<and>
      (\<forall>x \<in> set ws. \<exists>u \<in> set sample_users. \<not> user_bot u \<and> x = mention (user_id u)) \<and>
      int (length ws) =
        min (max 0 (winners ?g)) (int (length (filter (\<lambda>u. \<not> user_bot u) sample_users)))"
    using winners_drawn [OF d f, where s = ?s and m = "''500''" and g = ?g and ch = "''77''"
        and s' = ?s', THEN conjunct1] p1 by (rule mp)
  then obtain ws where ws: "announced ?s' =
      announced ?s @ [\<lparr>an_channel = ''77'', an_prize = prize ?g, an_winners = ws\<rparr>]"
    "distinct ws"
    "int (length ws) =
        min (max 0 (winners ?g)) (int (length (filter (\<lambda>u. \<not> user_bot u) sample_users)))"
    by blast
  have ended: "\<exists>ws. announced ?s' =
            [\<lparr>an_channel = ''77'', an_prize = ''Nitro'', an_winners = ws\<rparr>] \<and>
          distinct ws \<and> int (length ws) = 1"
    using ws a0 n by simp
  let ?t = "step (TimerFired 0 sample_discord) ?s"
  have p2: "map_get (endedGiveaways ?t) ''500'' = Some ?e \<and>
      rerollGiveaway ''500'' sample_discord ?t = Returned (Some rr)"
    using e rr by simp
  have "distinct (r_winners rr) \<and>
      (\<forall>x \<in> set (r_winners rr). \<exists>u \<in> set sample_users. \<not> user_bot u \<and> x = mention (user_id u)) \<and>
      int (length (r_winners rr)) =
        min (max 0 (winners ?e)) (int (length (filter (\<lambda>u. \<not> user_bot u) sample_users)))"
    using winners_drawn [OF d f, where s = ?t and m = "''500''" and e = ?e and r = rr,
        THEN conjunct2] p2 by (rule mp)
  then have rerolled: "distinct (r_winners rr) \<and> int (length (r_winners rr)) = 1"
    using n by simp
  show ?thesis
    using d f ended rerolled rr by blast
qed


text \<open>
  C1, at a failing input. The prefix command rejects a winner count below one; the slash
  command misses that check and stores any integer. A giveaway started by the slash
  command with a count of -1 and two non-bot participants ends with no winner, so the
  number of winners is not the minimum of the configured count and the number of non-bot
  participants.
\<close>

theorem winners_negative_count:
  "announced (step (TimerFired 0 sample_discord)
      (step (SlashStart True ''77'' ''1m'' ''Nitro'' (- 1) sample_start) ginit)) =
     [\<lparr>an_channel = ''77'', an_prize = ''Nitro'', an_winners = []\<rparr>] \<and>
   length (participants_of sample_users) = 2 \<and>
   int (length ([] :: string list)) \<noteq> min (- 1) (int (length (participants_of sample_users)))"
  by (simp add: giveaway_defs pickLoop.simps)

subsection \<open>Maps\<close>

lemma map_set_fresh: "\<not> map_has m k \<Longrightarrow> map_set k v m = m @ [(k, v)]"
  by (induction m) (auto simp: map_has_def map_set_def)

lemma map_delete_filter: "map_delete k m = filter (\<lambda>e. fst e \<noteq> k) m"
  by (induction m) (auto simp: map_delete_def)

lemma map_get_Some_iff:
  "distinct (map fst m) \<Longrightarrow> map_get m k = Some v \<longleftrightarrow> (k, v) \<in> set m"
  by (simp add: map_get_def)

lemma map_has_iff: "map_has m k \<longleftrightarrow> map_get m k \<noteq> None"
  by (simp add: map_has_def map_get_def map_of_eq_None_iff)

lemma map_has_set: "map_has (map_set k v m) k' \<longleftrightarrow> k' = k \<or> map_has m k'"
  by (auto simp: map_has_def map_set_def dom_update)

lemma map_has_delete: "map_has (map_delete k m) k' \<longleftrightarrow> k' \<noteq> k \<and> map_has m k'"
  by (auto simp: map_has_def map_delete_filter)

lemma map_get_set: "map_get (map_set k v m) k' = (if k' = k then Some v else map_get m k')"
  by (simp add: map_get_def map_set_def update_conv')

lemma map_get_delete: "map_get (map_delete k m) k' = (if k' = k then None else map_get m k')"
  by (simp add: map_get_def map_delete_def delete_conv')

lemma distinct_map_set: "distinct (map fst m) \<Longrightarrow> distinct (map fst (map_set k v m))"
  by (simp add: map_set_def distinct_update)

lemma distinct_map_delete: "distinct (map fst m) \<Longrightarrow> distinct (map fst (map_delete k m))"
  by (simp add: map_delete_def distinct_delete)

lemma entries_for_distinct: "distinct (map fst m) \<Longrightarrow> entries_for m k \<le> 1"
proof (induction m)
  case Nil
  then show ?case by (simp add: entries_for_def)
next
  case (Cons e m)
  have "fst e = k \<Longrightarrow> filter (\<lambda>e. fst e = k) m = []"
    using Cons.prems by (force simp: filter_empty_conv image_iff)
  then show ?case using Cons by (auto simp: entries_for_def)
qed

lemma ginv_init: "ginv ginit"
  by (simp add: ginv_def ginit_def)

subsection \<open>The bookkeeping invariant of the giveaway bot\<close>

lemma ginv_start_block:
  assumes "ginv s" "fresh_message env s"
  shows "ginv (start_block ch d p w env s)"
proof (cases "sentMessage env")
  case None
  then show ?thesis using assms by (simp add: start_block_def)
next
  case (Some m)
  show ?thesis
  proof (cases "reacted env")
    case False
    then show ?thesis using assms Some by (simp add: start_block_def)
  next
    case True
    define h where "h = gnextHandle s"
    define t where "t = \<lparr>handle = h, delay = ms env d, callback = EndGiveaway m ch\<rparr>"
    define g where "g = \<lparr>channelId = ch, prize = p, winners = w, timeout = h\<rparr>"
    have fr: "\<not> map_has (activeGiveaways s) m" "\<not> map_has (endedGiveaways s) m"
      using assms(2) Some by (simp_all add: fresh_message_def)
    have eq: "start_block ch d p w env s =
        s\<lparr>gtimers := gtimers s @ [t], gnextHandle := Suc h,
          activeGiveaways := activeGiveaways s @ [(m, g)]\<rparr>"
      using Some True fr(1) by (simp add: start_block_def Let_def h_def t_def g_def map_set_fresh)
    have old: "\<forall>t' \<in> set (gtimers s). handle t' < h"
      using assms(1) by (simp add: ginv_def h_def)
    have c1: "distinct (map fst (activeGiveaways s @ [(m, g)]))"
      using assms(1) fr(1) by (simp add: ginv_def map_has_def)
    have c3: "distinct (map handle (gtimers s @ [t]))"
      using assms(1) old by (auto simp: ginv_def t_def)
    have c4: "\<forall>t' \<in> set (gtimers s @ [t]). handle t' < Suc h"
      using old by (auto simp: t_def)
    have c5: "\<forall>e \<in> set (activeGiveaways s @ [(m, g)]). \<exists>t' \<in> set (gtimers s @ [t]).
        handle t' = timeout (snd e) \<and> callback t' = EndGiveaway (fst e) (channelId (snd e))"
      using assms(1) by (auto simp: ginv_def t_def g_def)
    have get: "map_get (activeGiveaways s @ [(m, g)]) k =
        (if k = m then Some g else map_get (activeGiveaways s) k)" for k
      using fr(1) map_get_set[of m g "activeGiveaways s" k] by (simp add: map_set_fresh)
    have c6: "\<forall>t' \<in> set (gtimers s @ [t]).
        case callback t' of
          EndGiveaway m' ch' \<Rightarrow>
            (case map_get (activeGiveaways s @ [(m, g)]) m' of
               None \<Rightarrow> False
             | Some g' \<Rightarrow> timeout g' = handle t')"
    proof
      fix t' assume "t' \<in> set (gtimers s @ [t])"
      then consider "t' = t" | "t' \<in> set (gtimers s)" by auto
      then show "case callback t' of
          EndGiveaway m' ch' \<Rightarrow>
            (case map_get (activeGiveaways s @ [(m, g)]) m' of
               None \<Rightarrow> False
             | Some g' \<Rightarrow> timeout g' = handle t')"
      proof cases
        case 1
        then show ?thesis using get[of m] by (simp add: t_def g_def)
      next
        case 2
        then have "case callback t' of
          EndGiveaway m' ch' \<Rightarrow>
            (case map_get (activeGiveaways s) m' of
               None \<Rightarrow> False
             | Some g' \<Rightarrow> timeout g' = handle t')"
          using assms(1) by (simp add: ginv_def)
        then show ?thesis
          using fr(1) by (auto simp: get map_has_iff split: gcallback.splits option.splits)
      qed
    qed
    have c7: "\<forall>e \<in> set (activeGiveaways s @ [(m, g)]). \<not> map_has (endedGiveaways s) (fst e)"
      using assms(1) fr(2) by (auto simp: ginv_def)
    have c2: "distinct (map fst (endedGiveaways s))"
      using assms(1) by (simp add: ginv_def)
    have fields:
      "activeGiveaways (start_block ch d p w env s) = activeGiveaways s @ [(m, g)]"
      "endedGiveaways (start_block ch d p w env s) = endedGiveaways s"
      "gtimers (start_block ch d p w env s) = gtimers s @ [t]"
      "gnextHandle (start_block ch d p w env s) = Suc h"
      by (simp_all add: eq)
    show ?thesis
      unfolding ginv_def fields using c1 c2 c3 c4 c5 c6 c7 by blast
  qed
qed

lemma ginv_end_pre:
  assumes "ginv s" "map_get (activeGiveaways s) m = Some g"
  shows "ginv (s\<lparr>gtimers := clearTimeout_in (timeout g) (gtimers s),
                 activeGiveaways := map_delete m (activeGiveaways s)\<rparr>)"
proof -
  let ?s1 = "s\<lparr>gtimers := clearTimeout_in (timeout g) (gtimers s),
               activeGiveaways := map_delete m (activeGiveaways s)\<rparr>"
  have d: "distinct (map fst (activeGiveaways s))" "distinct (map handle (gtimers s))"
    using assms(1) by (simp_all add: ginv_def)
  have mem: "(m, g) \<in> set (activeGiveaways s)"
    using assms(2) d(1) by (simp add: map_get_Some_iff)
  have own: "\<forall>t \<in> set (gtimers s).
        case callback t of
          EndGiveaway m' ch' \<Rightarrow>
            (case map_get (activeGiveaways s) m' of
               None \<Rightarrow> False
             | Some g' \<Rightarrow> timeout g' = handle t)"
    using assms(1) by (simp add: ginv_def)
  have fields:
    "activeGiveaways ?s1 = filter (\<lambda>e. fst e \<noteq> m) (activeGiveaways s)"
    "endedGiveaways ?s1 = endedGiveaways s"
    "gtimers ?s1 = filter (\<lambda>t. handle t \<noteq> timeout g) (gtimers s)"
    "gnextHandle ?s1 = gnextHandle s"
    by (simp_all add: map_delete_filter clearTimeout_in_def)
  have c1: "distinct (map fst (filter (\<lambda>e. fst e \<noteq> m) (activeGiveaways s)))"
    using d(1) by (simp add: distinct_map_filter)
  have c2: "distinct (map fst (endedGiveaways s))"
    using assms(1) by (simp add: ginv_def)
  have c3: "distinct (map handle (filter (\<lambda>t. handle t \<noteq> timeout g) (gtimers s)))"
    using d(2) by (simp add: distinct_map_filter)
  have c4: "\<forall>t \<in> set (filter (\<lambda>t. handle t \<noteq> timeout g) (gtimers s)). handle t < gnextHandle s"
    using assms(1) by (simp add: ginv_def)
  have c5: "\<forall>e \<in> set (filter (\<lambda>e. fst e \<noteq> m) (activeGiveaways s)).
      \<exists>t \<in> set (filter (\<lambda>t. handle t \<noteq> timeout g) (gtimers s)).
        handle t = timeout (snd e) \<and> callback t = EndGiveaway (fst e) (channelId (snd e))"
  proof
    fix e assume e: "e \<in> set (filter (\<lambda>e. fst e \<noteq> m) (activeGiveaways s))"
    then have ein: "e \<in> set (activeGiveaways s)" and ne: "fst e \<noteq> m" by auto
    from ein assms(1) obtain t where t: "t \<in> set (gtimers s)" "handle t = timeout (snd e)"
      "callback t = EndGiveaway (fst e) (channelId (snd e))"
      by (auto simp: ginv_def)
    from mem assms(1) obtain t0 where t0: "t0 \<in> set (gtimers s)" "handle t0 = timeout g"
      "callback t0 = EndGiveaway m (channelId g)"
      by (fastforce simp: ginv_def)
    have "handle t \<noteq> timeout g"
    proof
      assume "handle t = timeout g"
      then have "t = t0" using t(1) t0(1,2) d(2) by (simp add: distinct_map inj_on_def)
      then show False using t(3) t0(3) ne by simp
    qed
    then show "\<exists>t \<in> set (filter (\<lambda>t. handle t \<noteq> timeout g) (gtimers s)).
        handle t = timeout (snd e) \<and> callback t = EndGiveaway (fst e) (channelId (snd e))"
      using t by auto
  qed
  have get: "map_get (filter (\<lambda>e. fst e \<noteq> m) (activeGiveaways s)) k =
      (if k = m then None else map_get (activeGiveaways s) k)" for k
    using map_get_delete[of m "activeGiveaways s" k] by (simp add: map_delete_filter)
  have c6: "\<forall>t \<in> set (filter (\<lambda>t. handle t \<noteq> timeout g) (gtimers s)).
        case callback t of
          EndGiveaway m' ch' \<Rightarrow>
            (case map_get (filter (\<lambda>e. fst e \<noteq> m) (activeGiveaways s)) m' of
               None \<Rightarrow> False
             | Some g' \<Rightarrow> timeout g' = handle t)"
  proof
    fix t assume "t \<in> set (filter (\<lambda>t. handle t \<noteq> timeout g) (gtimers s))"
    then have t: "t \<in> set (gtimers s)" "handle t \<noteq> timeout g" by auto
    obtain m' ch' where cb: "callback t = EndGiveaway m' ch'" by (cases "callback t")
    with own t(1) obtain g' where g': "map_get (activeGiveaways s) m' = Some g'"
      "timeout g' = handle t"
      by (fastforce split: option.splits)
    have "m' \<noteq> m" using g' assms(2) t(2) by auto
    then show "case callback t of
          EndGiveaway m' ch' \<Rightarrow>
            (case map_get (filter (\<lambda>e. fst e \<noteq> m) (activeGiveaways s)) m' of
               None \<Rightarrow> False
             | Some g' \<Rightarrow> timeout g' = handle t)"
      using cb g' by (simp add: get)
  qed
  have c7: "\<forall>e \<in> set (filter (\<lambda>e. fst e \<noteq> m) (activeGiveaways s)).
      \<not> map_has (endedGiveaways s) (fst e)"
    using assms(1) by (simp add: ginv_def)
  show ?thesis
    unfolding ginv_def fields using c1 c2 c3 c4 c5 c6 c7 by blast
qed

lemma ginv_record:
  assumes "ginv s" "\<not> map_has (activeGiveaways s) m"
  shows "ginv (s\<lparr>announced := a, endedGiveaways := map_set m e (endedGiveaways s)\<rparr>)"
proof -
  have "\<forall>x \<in> set (activeGiveaways s). fst x \<noteq> m"
    using assms(2) by (auto simp: map_has_def)
  moreover have fields:
    "activeGiveaways (s\<lparr>announced := a, endedGiveaways := map_set m e (endedGiveaways s)\<rparr>) =
       activeGiveaways s"
    "endedGiveaways (s\<lparr>announced := a, endedGiveaways := map_set m e (endedGiveaways s)\<rparr>) =
       map_set m e (endedGiveaways s)"
    "gtimers (s\<lparr>announced := a, endedGiveaways := map_set m e (endedGiveaways s)\<rparr>) =
       gtimers s"
    "gnextHandle (s\<lparr>announced := a, endedGiveaways := map_set m e (endedGiveaways s)\<rparr>) =
       gnextHandle s"
    by simp_all
  ultimately show ?thesis
    using assms(1) unfolding ginv_def fields by (simp add: distinct_map_set map_has_set)
qed

lemma ginv_endGiveaway:
  assumes "ginv s"
  shows "ginv (snd (endGiveaway m ch env s))"
proof (cases "map_get (activeGiveaways s) m")
  case None
  then show ?thesis using assms by (simp add: endGiveaway_def)
next
  case (Some g)
  let ?s1 = "s\<lparr>gtimers := clearTimeout_in (timeout g) (gtimers s),
               activeGiveaways := map_delete m (activeGiveaways s)\<rparr>"
  have i1: "ginv ?s1" using assms Some by (rule ginv_end_pre)
  have nm: "\<not> map_has (activeGiveaways ?s1) m" by (simp add: map_has_delete)
  have i2: "ginv (?s1\<lparr>announced := a, endedGiveaways := map_set m e (endedGiveaways ?s1)\<rparr>)"
    for a e using i1 nm by (rule ginv_record)
  show ?thesis
    using Some i1 i2 by (auto simp: endGiveaway_def Let_def split: option.splits)
qed

lemma find_handle:
  "find (\<lambda>t. handle t = h) ts = Some t \<Longrightarrow> t \<in> set ts \<and> handle t = h"
  by (induction ts) (auto split: if_splits)

lemma find_pending: "find (\<lambda>t. handle t = h) ts = None \<longleftrightarrow> \<not> pending ts h"
  by (auto simp: find_None_iff pending_def)

lemma clearTimeout_in_idem: "clearTimeout_in h (clearTimeout_in h ts) = clearTimeout_in h ts"
  by (simp add: clearTimeout_in_def)

lemma not_pending_clear: "\<not> pending (clearTimeout_in h ts) h"
  by (auto simp: pending_def clearTimeout_in_def)

lemma timerFired_endGiveaway:
  assumes "ginv s" "find (\<lambda>t. handle t = h) (gtimers s) = Some t"
    "callback t = EndGiveaway m ch"
  shows "\<exists>g. map_get (activeGiveaways s) m = Some g \<and> timeout g = h \<and>
             timerFired h env s = snd (endGiveaway m ch env s)"
proof -
  have t: "t \<in> set (gtimers s)" "handle t = h"
    using find_handle[OF assms(2)] by simp_all
  have "case callback t of
          EndGiveaway m' ch' \<Rightarrow>
            (case map_get (activeGiveaways s) m' of
               None \<Rightarrow> False
             | Some g' \<Rightarrow> timeout g' = handle t)"
    using assms(1) t(1) by (simp add: ginv_def)
  then obtain g where g: "map_get (activeGiveaways s) m = Some g" "timeout g = h"
    using assms(3) t(2) by (auto split: option.splits)
  have "endGiveaway m ch env (s\<lparr>gtimers := clearTimeout_in h (gtimers s)\<rparr>) =
      endGiveaway m ch env s"
    using g by (simp add: endGiveaway_def Let_def clearTimeout_in_idem)
  then have "timerFired h env s = snd (endGiveaway m ch env s)"
    using assms(2,3) by (simp add: timerFired_def)
  with g show ?thesis by blast
qed

lemma ginv_timerFired:
  assumes "ginv s"
  shows "ginv (timerFired h env s)"
proof (cases "find (\<lambda>t. handle t = h) (gtimers s)")
  case None
  then show ?thesis using assms by (simp add: timerFired_def)
next
  case (Some t)
  obtain m ch where cb: "callback t = EndGiveaway m ch" by (cases "callback t")
  from timerFired_endGiveaway[OF assms Some cb, of env]
  have "timerFired h env s = snd (endGiveaway m ch env s)" by blast
  then show ?thesis using ginv_endGiveaway[OF assms, of m ch env] by simp
qed

lemma ginv_step:
  assumes "ginv s" "possible e s"
  shows "ginv (step e s)"
proof (cases e)
  case (PrefixStart allowed channel duration prz parsed env)
  then show ?thesis
    using assms ginv_start_block[of s env]
    by (auto simp: messageCreate_start_def split: option.splits)
next
  case (SlashStart allowed channel duration prz cnt env)
  then show ?thesis
    using assms ginv_start_block[of s env] by (auto simp: interaction_start_def)
next
  case (PrefixEnd allowed messageId channel env)
  then show ?thesis
    using assms ginv_endGiveaway[of s] by (auto simp: messageCreate_end_def split: option.splits)
next
  case (SlashEnd allowed messageId channel env)
  then show ?thesis
    using assms ginv_endGiveaway[of s] by (auto simp: interaction_end_def)
next
  case (TimerFired h env)
  then show ?thesis using assms ginv_timerFired[of s] by simp
next
  case OtherCommand
  then show ?thesis using assms by simp
qed

lemma reachable_ginv: "reachable s \<Longrightarrow> ginv s"
  by (induction rule: reachable.induct) (auto intro: ginv_init ginv_step)

text \<open>Which keys a step can add or remove.\<close>

lemma endGiveaway_active:
  "map_has (activeGiveaways (snd (endGiveaway m ch env s))) k \<longleftrightarrow>
     k \<noteq> m \<and> map_has (activeGiveaways s) k"
  by (auto simp: endGiveaway_def Let_def map_has_delete map_has_iff[of _ m] split: option.splits)

lemma endGiveaway_get:
  "k \<noteq> m \<Longrightarrow> map_get (activeGiveaways (snd (endGiveaway m ch env s))) k =
     map_get (activeGiveaways s) k"
  by (auto simp: endGiveaway_def Let_def map_get_delete split: option.splits)

lemma endGiveaway_ended:
  "map_has (endedGiveaways (snd (endGiveaway m ch env s))) k \<Longrightarrow>
     map_has (endedGiveaways s) k \<or> (k = m \<and> map_has (activeGiveaways s) m)"
  by (auto simp: endGiveaway_def Let_def map_has_set map_has_iff[of _ m]
      split: option.splits)

lemma start_block_active:
  "map_has (activeGiveaways (start_block ch d p w env s)) k \<longleftrightarrow>
     map_has (activeGiveaways s) k \<or> (sentMessage env = Some k \<and> reacted env)"
  by (auto simp: start_block_def Let_def map_has_set split: option.splits)

lemma start_block_ended:
  "endedGiveaways (start_block ch d p w env s) = endedGiveaways s"
  by (auto simp: start_block_def Let_def split: option.splits)

lemma step_keeps_absent:
  assumes "\<not> map_has (activeGiveaways s) m" "\<not> map_has (endedGiveaways s) m" "\<not> sends e m"
  shows "\<not> map_has (activeGiveaways (step e s)) m \<and> \<not> map_has (endedGiveaways (step e s)) m"
proof (cases e)
  case (PrefixStart allowed channel duration prz parsed env)
  then show ?thesis
    using assms
    by (auto simp: messageCreate_start_def start_block_active start_block_ended
        split: option.splits)
next
  case (SlashStart allowed channel duration prz cnt env)
  then show ?thesis
    using assms by (auto simp: interaction_start_def start_block_active start_block_ended)
next
  case (PrefixEnd allowed messageId channel env)
  then show ?thesis
    using assms
    by (auto simp: messageCreate_end_def endGiveaway_active dest: endGiveaway_ended
        split: option.splits)
next
  case (SlashEnd allowed messageId channel env)
  then show ?thesis
    using assms by (auto simp: interaction_end_def endGiveaway_active dest: endGiveaway_ended)
next
  case (TimerFired h env)
  have "\<not> map_has (activeGiveaways (s\<lparr>gtimers := ts\<rparr>)) m"
    "\<not> map_has (endedGiveaways (s\<lparr>gtimers := ts\<rparr>)) m" for ts
    using assms by simp_all
  then show ?thesis
    using TimerFired assms
    by (auto simp: timerFired_def endGiveaway_active dest!: endGiveaway_ended
        split: option.splits gcallback.splits)
next
  case OtherCommand
  then show ?thesis using assms by simp
qed

lemma run_keeps_absent:
  "\<not> map_has (activeGiveaways s) m \<Longrightarrow> \<not> map_has (endedGiveaways s) m \<Longrightarrow>
   \<forall>e \<in> set es. \<not> sends e m \<Longrightarrow>
   \<not> map_has (activeGiveaways (run es s)) m \<and> \<not> map_has (endedGiveaways (run es s)) m"
proof (induction es arbitrary: s)
  case Nil
  then show ?case by simp
next
  case (Cons e es)
  have "\<not> map_has (activeGiveaways (step e s)) m \<and> \<not> map_has (endedGiveaways (step e s)) m"
    using Cons.prems by (intro step_keeps_absent) simp_all
  then show ?case using Cons.IH[of "step e s"] Cons.prems(3) by simp
qed


lemma step_removes_iff:
  assumes "ginv s" "map_get (activeGiveaways s) m = Some g"
  shows "\<not> map_has (activeGiveaways (step e s)) m \<longleftrightarrow> ends e m g"
proof -
  have has: "map_has (activeGiveaways s) m" using assms(2) by (simp add: map_has_iff)
  have mem: "(m, g) \<in> set (activeGiveaways s)"
    using assms by (simp add: ginv_def map_get_Some_iff)
  then obtain t1 where t1: "t1 \<in> set (gtimers s)" "handle t1 = timeout g"
    "callback t1 = EndGiveaway m (channelId g)"
    using assms(1) by (fastforce simp: ginv_def)
  show ?thesis
  proof (cases e)
    case (PrefixStart allowed channel duration prz parsed env)
    then show ?thesis
      using has by (auto simp: messageCreate_start_def start_block_active split: option.splits)
  next
    case (SlashStart allowed channel duration prz cnt env)
    then show ?thesis using has by (auto simp: interaction_start_def start_block_active)
  next
    case (PrefixEnd allowed messageId channel env)
    then show ?thesis
      using has by (auto simp: messageCreate_end_def endGiveaway_active split: option.splits)
  next
    case (SlashEnd allowed messageId channel env)
    then show ?thesis using has by (auto simp: interaction_end_def endGiveaway_active)
  next
    case (TimerFired h env)
    show ?thesis
    proof (cases "find (\<lambda>t. handle t = h) (gtimers s)")
      case None
      then have "h \<noteq> timeout g" using t1 by (auto simp: find_None_iff)
      then show ?thesis using None TimerFired has by (simp add: timerFired_def)
    next
      case (Some t)
      obtain m' ch' where cb: "callback t = EndGiveaway m' ch'" by (cases "callback t")
      from timerFired_endGiveaway[OF assms(1) Some cb, of env]
      obtain g' where g': "map_get (activeGiveaways s) m' = Some g'" "timeout g' = h"
        "timerFired h env s = snd (endGiveaway m' ch' env s)" by blast
      have t: "t \<in> set (gtimers s)" "handle t = h" using find_handle[OF Some] by simp_all
      have "m' = m \<longleftrightarrow> h = timeout g"
      proof
        assume "m' = m"
        then show "h = timeout g" using g' assms(2) by simp
      next
        assume "h = timeout g"
        then have "t = t1"
          using t t1 assms(1) by (simp add: ginv_def distinct_map inj_on_def)
        then show "m' = m" using cb t1(3) by simp
      qed
      then show ?thesis
        using TimerFired g'(3) has by (auto simp: endGiveaway_active)
    qed
  next
    case OtherCommand
    then show ?thesis using has by simp
  qed
qed

lemma step_adds_only_sent:
  assumes "\<not> map_has (activeGiveaways s) m" "map_has (activeGiveaways (step e s)) m"
  shows "sends e m"
proof (cases e)
  case (PrefixStart allowed channel duration prz parsed env)
  then show ?thesis
    using assms
    by (auto simp: messageCreate_start_def start_block_active split: option.splits if_splits)
next
  case (SlashStart allowed channel duration prz cnt env)
  then show ?thesis
    using assms by (auto simp: interaction_start_def start_block_active split: if_splits)
next
  case (PrefixEnd allowed messageId channel env)
  then show ?thesis
    using assms
    by (auto simp: messageCreate_end_def endGiveaway_active split: option.splits if_splits)
next
  case (SlashEnd allowed messageId channel env)
  then show ?thesis
    using assms by (auto simp: interaction_end_def endGiveaway_active split: if_splits)
next
  case (TimerFired h env)
  have "\<not> map_has (activeGiveaways (s\<lparr>gtimers := ts\<rparr>)) m" for ts
    using assms(1) by simp
  then show ?thesis
    using TimerFired assms
    by (auto simp: timerFired_def endGiveaway_active split: option.splits gcallback.splits)
next
  case OtherCommand
  then show ?thesis using assms by simp
qed

lemma start_block_entry:
  assumes "sentMessage env = Some m" "reacted env"
  shows "map_get (activeGiveaways (start_block ch d p w env s)) m =
           Some \<lparr>channelId = ch, prize = p, winners = w, timeout = gnextHandle s\<rparr> \<and>
         (\<exists>t \<in> set (gtimers (start_block ch d p w env s)).
            handle t = gnextHandle s \<and> callback t = EndGiveaway m ch)"
  using assms by (simp add: start_block_def Let_def map_get_set)


subsection \<open>Life cycle of an active giveaway\<close>

text \<open>
  C4. In every reachable state of the giveaway bot and for every event that can follow:
  \<^item> \<^verbatim>\<open>activeGiveaways\<close> holds at most one entry per message identifier;
  \<^item> every entry holds the channel, the prize, the winner count and the handle of a timer
    that is pending and whose callback ends this giveaway in this channel;
  \<^item> a start command that passes its checks (slash: the permission; prefix: permission,
    channel, duration, prize and a winner count of at least one) and whose message is sent
    and reacted to creates the entry under the identifier of the giveaway message, and an
    identifier enters the map only in this way;
  \<^item> an entry leaves the map exactly when its timer fires or a permitted end command names
    its message identifier.
\<close>

theorem activeGiveaways_lifecycle:
  assumes "reachable s" "possible e s"
  shows
    "(\<forall>m. entries_for (activeGiveaways s) m \<le> 1) \<and>
     (\<forall>m g. map_get (activeGiveaways s) m = Some g \<longrightarrow>
        (\<exists>t \<in> set (gtimers s).
           handle t = timeout g \<and> callback t = EndGiveaway m (channelId g))) \<and>
     (\<forall>allowed ch d p w env m.
        e = SlashStart allowed ch d p w env \<and> allowed \<and>
        sentMessage env = Some m \<and> reacted env \<longrightarrow>
        map_get (activeGiveaways (step e s)) m =
          Some \<lparr>channelId = ch, prize = p, winners = w, timeout = gnextHandle s\<rparr> \<and>
        pending (gtimers (step e s)) (gnextHandle s)) \<and>
     (\<forall>allowed ch d p w env m.
        e = PrefixStart allowed (Some ch) (Some d) p (Some w) env \<and> allowed \<and>
        d \<noteq> [] \<and> p \<noteq> [] \<and> 1 \<le> w \<and> sentMessage env = Some m \<and> reacted env \<longrightarrow>
        map_get (activeGiveaways (step e s)) m =
          Some \<lparr>channelId = ch, prize = p, winners = w, timeout = gnextHandle s\<rparr> \<and>
        pending (gtimers (step e s)) (gnextHandle s)) \<and>
     (\<forall>m. \<not> map_has (activeGiveaways s) m \<and> map_has (activeGiveaways (step e s)) m \<longrightarrow>
        sends e m) \<and>
     (\<forall>m g. map_get (activeGiveaways s) m = Some g \<longrightarrow>
        (\<not> map_has (activeGiveaways (step e s)) m \<longleftrightarrow> ends e m g))"
proof -
  have inv: "ginv s" using assms(1) by (rule reachable_ginv)
  have c1: "\<forall>m. entries_for (activeGiveaways s) m \<le> 1"
    using inv entries_for_distinct[of "activeGiveaways s"] by (simp add: ginv_def)
  have c2: "\<forall>m g. map_get (activeGiveaways s) m = Some g \<longrightarrow>
        (\<exists>t \<in> set (gtimers s).
           handle t = timeout g \<and> callback t = EndGiveaway m (channelId g))"
  proof (intro allI impI)
    fix m g assume "map_get (activeGiveaways s) m = Some g"
    then have "(m, g) \<in> set (activeGiveaways s)"
      using inv by (simp add: ginv_def map_get_Some_iff)
    then show "\<exists>t \<in> set (gtimers s).
           handle t = timeout g \<and> callback t = EndGiveaway m (channelId g)"
      using inv by (fastforce simp: ginv_def)
  qed
  have c3: "\<forall>allowed ch d p w env m.
        e = SlashStart allowed ch d p w env \<and> allowed \<and>
        sentMessage env = Some m \<and> reacted env \<longrightarrow>
        map_get (activeGiveaways (step e s)) m =
          Some \<lparr>channelId = ch, prize = p, winners = w, timeout = gnextHandle s\<rparr> \<and>
        pending (gtimers (step e s)) (gnextHandle s)"
  proof (intro allI impI, elim conjE)
    fix allowed ch d p w env m
    assume h: "e = SlashStart allowed ch d p w env" "allowed" "sentMessage env = Some m"
      "reacted env"
    have "step e s = start_block ch d p w env s"
      using h(1,2) by (simp add: interaction_start_def)
    then show "map_get (activeGiveaways (step e s)) m =
          Some \<lparr>channelId = ch, prize = p, winners = w, timeout = gnextHandle s\<rparr> \<and>
        pending (gtimers (step e s)) (gnextHandle s)"
      using start_block_entry[OF h(3,4), of ch d p w s] by (force simp: pending_def image_iff)
  qed
  have c4: "\<forall>allowed ch d p w env m.
        e = PrefixStart allowed (Some ch) (Some d) p (Some w) env \<and> allowed \<and>
        d \<noteq> [] \<and> p \<noteq> [] \<and> 1 \<le> w \<and> sentMessage env = Some m \<and> reacted env \<longrightarrow>
        map_get (activeGiveaways (step e s)) m =
          Some \<lparr>channelId = ch, prize = p, winners = w, timeout = gnextHandle s\<rparr> \<and>
        pending (gtimers (step e s)) (gnextHandle s)"
  proof (intro allI impI, elim conjE)
    fix allowed ch d p w env m
    assume h: "e = PrefixStart allowed (Some ch) (Some d) p (Some w) env" "allowed"
      "d \<noteq> []" "p \<noteq> []" "1 \<le> w" "sentMessage env = Some m" "reacted env"
    have "step e s = start_block ch d p w env s"
      using h(1-5) by (simp add: messageCreate_start_def)
    then show "map_get (activeGiveaways (step e s)) m =
          Some \<lparr>channelId = ch, prize = p, winners = w, timeout = gnextHandle s\<rparr> \<and>
        pending (gtimers (step e s)) (gnextHandle s)"
      using start_block_entry[OF h(6,7), of ch d p w s] by (force simp: pending_def image_iff)
  qed
  have c5: "\<forall>m. \<not> map_has (activeGiveaways s) m \<and> map_has (activeGiveaways (step e s)) m \<longrightarrow>
        sends e m"
    using step_adds_only_sent by blast
  have c6: "\<forall>m g. map_get (activeGiveaways s) m = Some g \<longrightarrow>
        (\<not> map_has (activeGiveaways (step e s)) m \<longleftrightarrow> ends e m g)"
    using step_removes_iff[OF inv] by blast
  show ?thesis using c1 c2 c3 c4 c5 c6 by blast
qed

theorem activeGiveaways_lifecycle_witness:
  "reachable ginit \<and>
   possible (SlashStart True ''77'' ''1m'' ''Nitro'' 1 sample_start) ginit \<and>
   map_get (activeGiveaways (step (SlashStart True ''77'' ''1m'' ''Nitro'' 1 sample_start) ginit))
     ''500'' = Some \<lparr>channelId = ''77'', prize = ''Nitro'', winners = 1, timeout = 0\<rparr> \<and>
   pending (gtimers (step (SlashStart True ''77'' ''1m'' ''Nitro'' 1 sample_start) ginit)) 0 \<and>
   reachable (step (SlashStart True ''77'' ''1m'' ''Nitro'' 1 sample_start) ginit) \<and>
   entries_for
     (activeGiveaways (step (SlashStart True ''77'' ''1m'' ''Nitro'' 1 sample_start) ginit))
     ''500'' \<le> 1 \<and>
   ends (TimerFired 0 sample_discord) ''500''
     \<lparr>channelId = ''77'', prize = ''Nitro'', winners = 1, timeout = 0\<rparr> \<and>
   \<not> map_has
       (activeGiveaways
          (step (TimerFired 0 sample_discord)
             (step (SlashStart True ''77'' ''1m'' ''Nitro'' 1 sample_start) ginit)))
       ''500'' \<and>
   \<not> ends (SlashEnd True ''501'' ''77'' sample_discord) ''500''
     \<lparr>channelId = ''77'', prize = ''Nitro'', winners = 1, timeout = 0\<rparr> \<and>
   map_has
     (activeGiveaways
        (step (SlashEnd True ''501'' ''77'' sample_discord)
           (step (SlashStart True ''77'' ''1m'' ''Nitro'' 1 sample_start) ginit)))
     ''500''"
proof -
  let ?e = "SlashStart True ''77'' ''1m'' ''Nitro'' 1 sample_start"
  let ?s = "step ?e ginit"
  let ?g = "\<lparr>channelId = ''77'', prize = ''Nitro'', winners = 1, timeout = 0\<rparr>"
  have p0: "possible ?e ginit"
    by (simp add: fresh_message_def sample_start_def ginit_def map_has_def)
  have r1: "reachable ?s" using reachable.init p0 by (rule reachable.step)
  have sent: "sentMessage sample_start = Some ''500''" "reacted sample_start"
    by (simp_all add: sample_start_def)
  have n0: "gnextHandle ginit = 0" by (simp add: ginit_def)
  note L0 = activeGiveaways_lifecycle [OF reachable.init p0]
  have created: "map_get (activeGiveaways ?s) ''500'' = Some ?g \<and> pending (gtimers ?s) 0"
    using L0 [THEN conjunct2, THEN conjunct2, THEN conjunct1, rule_format,
        of True "''77''" "''1m''" "''Nitro''" 1 sample_start "''500''"] sent n0
    by simp
  then have g: "map_get (activeGiveaways ?s) ''500'' = Some ?g" by simp
  have pT: "possible (TimerFired 0 sample_discord) ?s"
    and pE: "possible (SlashEnd True ''501'' ''77'' sample_discord) ?s"
    and pO: "possible OtherCommand ?s"
    by simp_all
  have one: "entries_for (activeGiveaways ?s) ''500'' \<le> 1"
    using activeGiveaways_lifecycle [OF r1 pO, THEN conjunct1] by simp
  have fired: "\<not> map_has (activeGiveaways (step (TimerFired 0 sample_discord) ?s)) ''500''"
    using activeGiveaways_lifecycle [OF r1 pT, THEN conjunct2,
        THEN conjunct2, THEN conjunct2, THEN conjunct2, THEN conjunct2, rule_format, OF g]
    by simp
  have kept: "map_has
      (activeGiveaways (step (SlashEnd True ''501'' ''77'' sample_discord) ?s)) ''500''"
    using activeGiveaways_lifecycle [OF r1 pE,
        THEN conjunct2, THEN conjunct2, THEN conjunct2, THEN conjunct2, THEN conjunct2,
        rule_format, OF g]
    by simp
  show ?thesis using reachable.init p0 created r1 one fired kept by simp
qed


subsection \<open>What \<^verbatim>\<open>endGiveaway\<close> leaves behind\<close>

text \<open>
  C6. Let a message identifier key \<^verbatim>\<open>activeGiveaways\<close> in a reachable state, and let
  \<^verbatim>\<open>endGiveaway\<close> return for it, true or false. Afterwards the identifier no longer keys
  \<^verbatim>\<open>activeGiveaways\<close>, the timer of the giveaway is not pending, and the identifier keys
  \<^verbatim>\<open>endedGiveaways\<close> if and only if the call returned true. When the message fetch fails,
  the call returns false and no later sequence of events records the identifier in
  \<^verbatim>\<open>endedGiveaways\<close> (Discord gives no later giveaway message the same identifier).
\<close>

theorem endGiveaway_bookkeeping:
  assumes "reachable s" "map_get (activeGiveaways s) m = Some g"
    and "endGiveaway m ch env s = (Returned r, s')"
  shows "\<not> map_has (activeGiveaways s') m \<and>
         \<not> pending (gtimers s') (timeout g) \<and>
         (map_has (endedGiveaways s') m \<longleftrightarrow> r) \<and>
         (fetchMessage env = None \<longrightarrow>
            \<not> r \<and> (\<forall>es. (\<forall>e \<in> set es. \<not> sends e m) \<longrightarrow>
                      \<not> map_has (endedGiveaways (run es s')) m))"
proof -
  have inv: "ginv s" using assms(1) by (rule reachable_ginv)
  have "(m, g) \<in> set (activeGiveaways s)"
    using assms(2) inv by (simp add: ginv_def map_get_Some_iff)
  then have notended: "\<not> map_has (endedGiveaways s) m"
    using inv by (fastforce simp: ginv_def)
  have s': "s' = snd (endGiveaway m ch env s)" using assms(3) by simp
  have a: "\<not> map_has (activeGiveaways s') m"
    unfolding s' by (simp add: endGiveaway_active)
  have b: "\<not> pending (gtimers s') (timeout g)"
    using assms(2,3)
    by (auto simp: endGiveaway_def Let_def not_pending_clear split: option.splits)
  have c: "map_has (endedGiveaways s') m \<longleftrightarrow> r"
    using assms(2,3) notended
    by (auto simp: endGiveaway_def Let_def map_has_set split: option.splits)
  have d: "\<not> r \<and> (\<forall>es. (\<forall>e \<in> set es. \<not> sends e m) \<longrightarrow>
      \<not> map_has (endedGiveaways (run es s')) m)" if "fetchMessage env = None"
  proof -
    have "\<not> r" using assms(2,3) that by (auto simp: endGiveaway_def Let_def)
    then have "\<not> map_has (endedGiveaways s') m" using c by simp
    then show ?thesis using a \<open>\<not> r\<close> run_keeps_absent[of s' m] by blast
  qed
  show ?thesis using a b c d by blast
qed

theorem endGiveaway_bookkeeping_witness:
  "reachable (step (SlashStart True ''77'' ''1m'' ''Nitro'' 1 sample_start) ginit) \<and>
   map_get (activeGiveaways (step (SlashStart True ''77'' ''1m'' ''Nitro'' 1 sample_start) ginit))
     ''500'' = Some \<lparr>channelId = ''77'', prize = ''Nitro'', winners = 1, timeout = 0\<rparr> \<and>
   fst (endGiveaway ''500'' ''77'' sample_unfetched
          (step (SlashStart True ''77'' ''1m'' ''Nitro'' 1 sample_start) ginit)) =
     Returned False \<and>
   fetchMessage sample_unfetched = None \<and>
   \<not> map_has
       (activeGiveaways
          (snd (endGiveaway ''500'' ''77'' sample_unfetched
                  (step (SlashStart True ''77'' ''1m'' ''Nitro'' 1 sample_start) ginit))))
       ''500'' \<and>
   \<not> pending
       (gtimers
          (snd (endGiveaway ''500'' ''77'' sample_unfetched
                  (step (SlashStart True ''77'' ''1m'' ''Nitro'' 1 sample_start) ginit))))
       0 \<and>
   \<not> map_has
       (endedGiveaways
          (run [SlashEnd True ''500'' ''77'' sample_discord, TimerFired 0 sample_discord]
             (snd (endGiveaway ''500'' ''77'' sample_unfetched
                     (step (SlashStart True ''77'' ''1m'' ''Nitro'' 1 sample_start) ginit)))))
       ''500'' \<and>
   fst (endGiveaway ''500'' ''77'' sample_discord
          (step (SlashStart True ''77'' ''1m'' ''Nitro'' 1 sample_start) ginit)) =
     Returned True \<and>
   map_has
     (endedGiveaways
        (snd (endGiveaway ''500'' ''77'' sample_discord
                (step (SlashStart True ''77'' ''1m'' ''Nitro'' 1 sample_start) ginit))))
     ''500''"
proof -
  let ?e = "SlashStart True ''77'' ''1m'' ''Nitro'' 1 sample_start"
  let ?s = "step ?e ginit"
  let ?g = "\<lparr>channelId = ''77'', prize = ''Nitro'', winners = 1, timeout = 0\<rparr>"
  have p0: "possible ?e ginit"
    by (simp add: fresh_message_def sample_start_def ginit_def map_has_def)
  have r1: "reachable ?s" using reachable.init p0 by (rule reachable.step)
  have g: "map_get (activeGiveaways ?s) ''500'' = Some ?g"
    by (simp add: giveaway_defs)
  have f: "fetchMessage sample_unfetched = None"
    by (simp add: sample_unfetched_def)
  have r: "fst (endGiveaway ''500'' ''77'' sample_unfetched ?s) = Returned False"
    by (simp add: giveaway_defs)
  then have e1: "endGiveaway ''500'' ''77'' sample_unfetched ?s =
      (Returned False, snd (endGiveaway ''500'' ''77'' sample_unfetched ?s))"
    by (simp add: prod_eq_iff)
  have r': "fst (endGiveaway ''500'' ''77'' sample_discord ?s) = Returned True"
    by (simp add: giveaway_defs)
  then have e2: "endGiveaway ''500'' ''77'' sample_discord ?s =
      (Returned True, snd (endGiveaway ''500'' ''77'' sample_discord ?s))"
    by (simp add: prod_eq_iff)
  note B1 = endGiveaway_bookkeeping [OF r1 g e1]
  note B2 = endGiveaway_bookkeeping [OF r1 g e2]
  have never: "\<not> map_has
       (endedGiveaways
          (run [SlashEnd True ''500'' ''77'' sample_discord, TimerFired 0 sample_discord]
             (snd (endGiveaway ''500'' ''77'' sample_unfetched ?s)))) ''500''"
  proof -
    have "\<forall>e \<in> set [SlashEnd True ''500'' ''77'' sample_discord, TimerFired 0 sample_discord].
        \<not> sends e ''500''" by simp
    then show ?thesis using B1 f by blast
  qed
  show ?thesis using r1 g r f B1 never r' B2 by simp
qed

subsection \<open>Poll reactions\<close>

lemma collectChoices_filter:
  "i \<le> 20 \<Longrightarrow>
   collectChoices getString i choices =
     choices @
     map (\<lambda>j. \<lparr>choice_emoji = emojiMap ! j, choice_label = the (getString (choiceKey j))\<rparr>)
       (filter (provided getString) [i..<20])"
proof (induction getString i choices rule: collectChoices.induct)
  case (1 getString i choices)
  show ?case
  proof (cases "i < 20")
    case False
    with "1.prems" have "i = 20" by simp
    then show ?thesis by (subst collectChoices.simps) simp
  next
    case True
    then have u: "[i..<20] = i # [Suc i..<20]" by (simp add: upt_conv_Cons)
    have IH: "collectChoices getString (Suc i) acc =
        acc @ map (\<lambda>j. \<lparr>choice_emoji = emojiMap ! j, choice_label = the (getString (choiceKey j))\<rparr>)
          (filter (provided getString) [Suc i..<20])"
      if "acc = (case getString (choiceKey i) of
             None \<Rightarrow> choices
           | Some v \<Rightarrow>
               if v = [] then choices
               else choices @ [\<lparr>choice_emoji = emojiMap ! i, choice_label = v\<rparr>])" for acc
      using "1.IH"[OF True] True that by simp
    show ?thesis
      by (subst collectChoices.simps, subst u)
        (auto simp: True IH provided_def split: option.splits)
  qed
qed

lemma emojiMap_nth:
  assumes "i < 20"
  shows "emojiMap ! i = 127462 + i"
proof -
  have eq: "emojiMap = map (\<lambda>i. 127462 + i) [0..<20]"
    by (simp add: emojiMap_def upt_conv_Cons)
  have len: "i < length [0..<20]" using assms by simp
  have "emojiMap ! i = 127462 + ([0..<20] ! i)"
    unfolding eq using len by (rule nth_map)
  also have "[0..<20] ! i = i" using assms nth_upt[of 0 i 20] by (simp del: upt_Suc)
  finally show ?thesis .
qed

lemma collectChoices_all:
  "collectChoices getString 0 [] =
     map (\<lambda>j. \<lparr>choice_emoji = emojiMap ! j, choice_label = the (getString (choiceKey j))\<rparr>)
       (filter (provided getString) [0..<20])"
  using collectChoices_filter [of 0 getString "[]"] by (simp only: append_Nil le0)


lemma poll_field_too_long:
  "fieldContentLength (collectChoices getString 0 []) > 1024 \<Longrightarrow>
   pollInteraction True ''poll'' getString env = BuilderThrew"
  by (simp add: pollInteraction_def Let_def)

text \<open>
  C8. For a poll interaction whose reply is sent, every provided choice option (an option
  with a non-empty text among \<^verbatim>\<open>choice_a\<close> to \<^verbatim>\<open>choice_t\<close>) is paired with the entry of the
  emoji map at the index of the option, which is the regional indicator symbol of that
  letter (code point 127462 plus the index). When no reaction is rejected, the bot reacts
  to its reply with exactly the emoji of the provided choices, in option order, if at
  least two choices are provided, and with thumbs up and thumbs down otherwise. The reply
  is sent exactly when the embed builder accepts the description (at most 4096) and the
  field text (at most 1024) and Discord accepts the reply.
\<close>

theorem poll_reactions:
  "(pollInteraction True ''poll'' getString env = Replied choices reactions \<longrightarrow>
      choices =
        map (\<lambda>i. \<lparr>choice_emoji = emojiMap ! i, choice_label = the (getString (choiceKey i))\<rparr>)
          (filter (provided getString) [0..<20]) \<and>
      (reactRejectsAt env = None \<longrightarrow>
         (length (filter (provided getString) [0..<20]) \<ge> 2 \<longrightarrow>
            reactions = map (\<lambda>i. emojiMap ! i) (filter (provided getString) [0..<20])) \<and>
         (length (filter (provided getString) [0..<20]) < 2 \<longrightarrow>
            reactions = [thumbsUp, thumbsDown]))) \<and>
   (\<forall>i < 20. emojiMap ! i = 127462 + i) \<and>
   ((\<exists>choices reactions.
        pollInteraction True ''poll'' getString env = Replied choices reactions) \<longleftrightarrow>
      2 + (case getString ''question'' of None \<Rightarrow> 4 | Some q \<Rightarrow> length q) + 2 \<le> 4096 \<and>
      fieldContentLength (collectChoices getString 0 []) \<le> 1024 \<and>
      replyResolves env)"
proof -
  define xs where "xs = filter (provided getString) [0..<20]"
  define mk where
    "mk = (\<lambda>i. \<lparr>choice_emoji = emojiMap ! i, choice_label = the (getString (choiceKey i))\<rparr>)"
  define cs where "cs = collectChoices getString 0 []"
  have c: "cs = map mk xs"
    unfolding cs_def xs_def mk_def by (rule collectChoices_all)
  have em: "map choice_emoji (map mk xs) = map (\<lambda>i. emojiMap ! i) xs"
    by (simp add: mk_def comp_def)
  have first: "pollInteraction True ''poll'' getString env = Replied choices reactions \<longrightarrow>
      choices = map mk xs \<and>
      (reactRejectsAt env = None \<longrightarrow>
         (length xs \<ge> 2 \<longrightarrow> reactions = map (\<lambda>i. emojiMap ! i) xs) \<and>
         (length xs < 2 \<longrightarrow> reactions = [thumbsUp, thumbsDown]))"
  proof
    assume r: "pollInteraction True ''poll'' getString env = Replied choices reactions"
    then have ch: "choices = cs"
      by (auto simp: pollInteraction_def Let_def cs_def split: if_splits)
    have re: "reactRejectsAt env = None \<longrightarrow>
        reactions = (if length cs \<ge> 2 then map choice_emoji cs else [thumbsUp, thumbsDown])"
      using r by (auto simp: pollInteraction_def Let_def cs_def split: if_splits)
    show "choices = map mk xs \<and>
      (reactRejectsAt env = None \<longrightarrow>
         (length xs \<ge> 2 \<longrightarrow> reactions = map (\<lambda>i. emojiMap ! i) xs) \<and>
         (length xs < 2 \<longrightarrow> reactions = [thumbsUp, thumbsDown]))"
      using ch re em unfolding c by simp
  qed
  have second: "\<forall>i < 20. emojiMap ! i = 127462 + i"
    using emojiMap_nth by blast
  have third: "(\<exists>choices reactions.
        pollInteraction True ''poll'' getString env = Replied choices reactions) \<longleftrightarrow>
      2 + (case getString ''question'' of None \<Rightarrow> 4 | Some q \<Rightarrow> length q) + 2 \<le> 4096 \<and>
      fieldContentLength cs \<le> 1024 \<and> replyResolves env"
    by (auto simp: pollInteraction_def Let_def cs_def)
  show ?thesis
    using first second third unfolding xs_def mk_def cs_def by blast
qed

theorem poll_reactions_witness:
  "filter (provided sample_options) [0..<20] = [0, 2, 19] \<and>
   reactRejectsAt sample_poll_env = None \<and>
   (\<exists>choices. pollInteraction True ''poll'' sample_options sample_poll_env =
      Replied choices [127462, 127464, 127481])"
proof -
  have p: "filter (provided sample_options) [0..<20] = [0, 2, 19]"
    by code_simp
  have n: "reactRejectsAt sample_poll_env = None" "replyResolves sample_poll_env"
    by (simp_all add: sample_poll_env_def)
  have k: "sample_options (choiceKey 0) = Some ''Pizza''"
    "sample_options (choiceKey 2) = Some ''Sushi''"
    "sample_options (choiceKey 19) = Some ''Tacos''"
    by code_simp+
  have cs: "collectChoices sample_options 0 [] =
      [\<lparr>choice_emoji = 127462, choice_label = ''Pizza''\<rparr>,
       \<lparr>choice_emoji = 127464, choice_label = ''Sushi''\<rparr>,
       \<lparr>choice_emoji = 127481, choice_label = ''Tacos''\<rparr>]"
    unfolding collectChoices_all p by (simp add: k emojiMap_def)
  have q: "2 + (case sample_options ''question'' of None \<Rightarrow> 4 | Some q \<Rightarrow> length q) + 2 \<le> 4096"
    by (simp add: sample_options_def)
  have f: "fieldContentLength (collectChoices sample_options 0 []) \<le> 1024"
    unfolding cs by (simp add: fieldContentLength_def)
  note T = poll_reactions [of sample_options sample_poll_env]
  have "\<exists>choices reactions.
      pollInteraction True ''poll'' sample_options sample_poll_env = Replied choices reactions"
    using T [THEN conjunct2, THEN conjunct2] q f n(2) by blast
  then obtain choices reactions where
    e: "pollInteraction True ''poll'' sample_options sample_poll_env = Replied choices reactions"
    by blast
  have two: "2 \<le> length (filter (provided sample_options) [0..<20])"
    unfolding p by simp
  have "reactions = map (\<lambda>i. emojiMap ! i) (filter (provided sample_options) [0..<20])"
    using poll_reactions [of sample_options sample_poll_env choices reactions, THEN conjunct1,
        THEN mp, OF e, THEN conjunct2, THEN mp, OF n(1), THEN conjunct1, THEN mp, OF two] .
  then have "reactions = [127462, 127464, 127481]"
    unfolding p by (simp add: emojiMap_def)
  with e p n(1) show ?thesis by blast
qed

subsection \<open>Autoplay\<close>

lemma genres_length: "length genres = 11"
  by (simp add: genres_def)

lemma genre_in_list: "genres ! (n mod length genres) \<in> set genres"
  by (rule nth_mem) (simp add: genres_length)

lemma teardown_no_calls_state:
  "map_has (twentyFourSeven s) g \<Longrightarrow> teardown g cached s = s"
  by (simp add: teardown_def)


text \<open>
  C9. The order in which the random comparator leaves the search result is a permutation
  of it. On \<^verbatim>\<open>playerEmpty\<close> in a guild with autoplay enabled and a \<^verbatim>\<open>queue.previous\<close>, the
  handler picks one of the eleven genres, calls the search once, with that genre, and, when
  the search gives tracks, adds to the queue the first five tracks of the shuffled result
  (all of them when there are fewer), in one call; when the search fails or gives nothing,
  nothing is added. When autoplay is not enabled for the guild, the handler neither
  searches nor adds.
\<close>

theorem autoplay_on_empty:
  assumes "\<forall>xs. mset (sortRandom env xs) = mset xs"
  shows
    "(autoplay s = Some gs \<and> guildId \<in> set gs \<and> previous player = Some ps \<longrightarrow>
        (\<exists>genre req added.
           genre \<in> set genres \<and> length genres = 11 \<and>
           fst (playerEmpty guildId player env s) = Search genre req # added \<and>
           (\<forall>c \<in> set added. \<forall>g r. c \<noteq> Search g r) \<and>
           (\<forall>ts. searchResult env = Some (Some ts) \<and> ts \<noteq> [] \<longrightarrow>
              (\<exists>tracksToAdd rest.
                 added = QueueAdd tracksToAdd # rest \<and>
                 (\<forall>c \<in> set rest. \<forall>xs. c \<noteq> QueueAdd xs) \<and>
                 tracksToAdd = take 5 (sortRandom env ts) \<and>
                 length tracksToAdd = min 5 (length ts) \<and>
                 mset tracksToAdd \<subseteq># mset ts)) \<and>
           (searchResult env = None \<or> searchResult env = Some None \<or>
            searchResult env = Some (Some []) \<longrightarrow> added = []))) \<and>
     ((autoplay s = None \<or> (\<exists>gs. autoplay s = Some gs \<and> guildId \<notin> set gs)) \<longrightarrow>
        fst (playerEmpty guildId player env s) = [])"
proof (rule conjI; rule impI)
  assume h: "autoplay s = Some gs \<and> guildId \<in> set gs \<and> previous player = Some ps"
  define genre where "genre = genres ! (genreDraw env mod length genres)"
  define req where "req = map_option requester (if length ps > 0 then Some (last ps) else None)"
  define added where "added =
     (case searchResult env of
        Some (Some ts) \<Rightarrow>
          if ts \<noteq> [] then
            QueueAdd (take 5 (sortRandom env ts)) #
              (if \<not> playing player \<and> \<not> paused player then [PlayerPlay] else [])
          else []
      | _ \<Rightarrow> [])"
  have calls: "fst (playerEmpty guildId player env s) = Search genre req # added"
    using h
    by (auto simp: playerEmpty_def Let_def genre_def req_def added_def split: option.splits)
  have nosearch: "\<forall>c \<in> set added. \<forall>g r. c \<noteq> Search g r"
    by (auto simp: added_def split: option.splits if_splits)
  have results: "\<forall>ts. searchResult env = Some (Some ts) \<and> ts \<noteq> [] \<longrightarrow>
              (\<exists>tracksToAdd rest.
                 added = QueueAdd tracksToAdd # rest \<and>
                 (\<forall>c \<in> set rest. \<forall>xs. c \<noteq> QueueAdd xs) \<and>
                 tracksToAdd = take 5 (sortRandom env ts) \<and>
                 length tracksToAdd = min 5 (length ts) \<and>
                 mset tracksToAdd \<subseteq># mset ts)"
  proof (intro allI impI)
    fix ts assume t: "searchResult env = Some (Some ts) \<and> ts \<noteq> []"
    have len: "length (sortRandom env ts) = length ts"
      using assms by (metis size_mset)
    have "mset (take 5 (sortRandom env ts)) \<subseteq># mset (sortRandom env ts)"
      by (metis append_take_drop_id mset_append mset_subset_eq_add_left)
    then have sub: "mset (take 5 (sortRandom env ts)) \<subseteq># mset ts"
      using assms by simp
    show "\<exists>tracksToAdd rest.
                 added = QueueAdd tracksToAdd # rest \<and>
                 (\<forall>c \<in> set rest. \<forall>xs. c \<noteq> QueueAdd xs) \<and>
                 tracksToAdd = take 5 (sortRandom env ts) \<and>
                 length tracksToAdd = min 5 (length ts) \<and>
                 mset tracksToAdd \<subseteq># mset ts"
      using t len sub by (auto simp: added_def min_def)
  qed
  have none: "searchResult env = None \<or> searchResult env = Some None \<or>
            searchResult env = Some (Some []) \<longrightarrow> added = []"
    by (auto simp: added_def)
  show "\<exists>genre req added.
           genre \<in> set genres \<and> length genres = 11 \<and>
           fst (playerEmpty guildId player env s) = Search genre req # added \<and>
           (\<forall>c \<in> set added. \<forall>g r. c \<noteq> Search g r) \<and>
           (\<forall>ts. searchResult env = Some (Some ts) \<and> ts \<noteq> [] \<longrightarrow>
              (\<exists>tracksToAdd rest.
                 added = QueueAdd tracksToAdd # rest \<and>
                 (\<forall>c \<in> set rest. \<forall>xs. c \<noteq> QueueAdd xs) \<and>
                 tracksToAdd = take 5 (sortRandom env ts) \<and>
                 length tracksToAdd = min 5 (length ts) \<and>
                 mset tracksToAdd \<subseteq># mset ts)) \<and>
           (searchResult env = None \<or> searchResult env = Some None \<or>
            searchResult env = Some (Some []) \<longrightarrow> added = [])"
    using calls nosearch results none genre_in_list[of "genreDraw env"] genres_length
    unfolding genre_def by blast
next
  assume "autoplay s = None \<or> (\<exists>gs. autoplay s = Some gs \<and> guildId \<notin> set gs)"
  then show "fst (playerEmpty guildId player env s) = []"
    by (auto simp: playerEmpty_def)
qed

theorem autoplay_on_empty_witness:
  "(\<forall>xs. mset (sortRandom sample_empty_env xs) = mset xs) \<and>
   autoplay sample_autoplay = Some [''9''] \<and>
   previous sample_idle = Some [sample_track ''u0'' ''7''] \<and>
   searchResult sample_empty_env = Some (Some sample_found) \<and>
   (\<exists>genre req tracksToAdd rest.
      genre \<in> set genres \<and>
      fst (playerEmpty ''9'' sample_idle sample_empty_env sample_autoplay) =
        Search genre req # QueueAdd tracksToAdd # rest \<and>
      length tracksToAdd = 5 \<and> mset tracksToAdd \<subseteq># mset sample_found) \<and>
   fst (playerEmpty ''9'' sample_idle sample_empty_env music_init) = []"
proof -
  have perm: "\<forall>xs. mset (sortRandom sample_empty_env xs) = mset xs"
    by (simp add: sample_empty_env_def)
  have a: "autoplay sample_autoplay = Some [''9'']"
    by (simp add: sample_autoplay_def)
  have p: "previous sample_idle = Some [sample_track ''u0'' ''7'']"
    by (simp add: sample_idle_def)
  have r: "searchResult sample_empty_env = Some (Some sample_found)"
    by (simp add: sample_empty_env_def)
  have n: "sample_found \<noteq> []" "length sample_found = 7"
    by (simp_all add: sample_found_def)
  have h: "autoplay sample_autoplay = Some [''9''] \<and> ''9'' \<in> set [''9''] \<and>
      previous sample_idle = Some [sample_track ''u0'' ''7'']"
    using a p by simp
  note T = autoplay_on_empty [OF perm, where s = sample_autoplay and gs = "[''9'']"
      and guildId = "''9''" and player = sample_idle
      and ps = "[sample_track ''u0'' ''7'']", THEN conjunct1, THEN mp, OF h]
  from T obtain genre req added where big:
    "genre \<in> set genres \<and> length genres = 11 \<and>
     fst (playerEmpty ''9'' sample_idle sample_empty_env sample_autoplay) =
       Search genre req # added \<and>
     (\<forall>c \<in> set added. \<forall>g r. c \<noteq> Search g r) \<and>
     (\<forall>ts. searchResult sample_empty_env = Some (Some ts) \<and> ts \<noteq> [] \<longrightarrow>
              (\<exists>tracksToAdd rest.
                 added = QueueAdd tracksToAdd # rest \<and>
                 (\<forall>c \<in> set rest. \<forall>xs. c \<noteq> QueueAdd xs) \<and>
                 tracksToAdd = take 5 (sortRandom sample_empty_env ts) \<and>
                 length tracksToAdd = min 5 (length ts) \<and>
                 mset tracksToAdd \<subseteq># mset ts)) \<and>
     (searchResult sample_empty_env = None \<or> searchResult sample_empty_env = Some None \<or>
      searchResult sample_empty_env = Some (Some []) \<longrightarrow> added = [])"
    by (elim exE) (erule that)
  have g: "genre \<in> set genres"
    "fst (playerEmpty ''9'' sample_idle sample_empty_env sample_autoplay) =
       Search genre req # added"
    by (rule big [THEN conjunct1], rule big [THEN conjunct2, THEN conjunct2, THEN conjunct1])
  note res = big [THEN conjunct2, THEN conjunct2, THEN conjunct2, THEN conjunct2,
      THEN conjunct1, rule_format, of sample_found, OF conjI [OF r n(1)]]
  from res obtain tracksToAdd rest where t0:
    "added = QueueAdd tracksToAdd # rest \<and>
     (\<forall>c \<in> set rest. \<forall>xs. c \<noteq> QueueAdd xs) \<and>
     tracksToAdd = take 5 (sortRandom sample_empty_env sample_found) \<and>
     length tracksToAdd = min 5 (length sample_found) \<and>
     mset tracksToAdd \<subseteq># mset sample_found"
    by (elim exE) (erule that)
  have t: "added = QueueAdd tracksToAdd # rest"
    "length tracksToAdd = min 5 (length sample_found)"
    "mset tracksToAdd \<subseteq># mset sample_found"
    by (rule t0 [THEN conjunct1],
        rule t0 [THEN conjunct2, THEN conjunct2, THEN conjunct2, THEN conjunct1],
        rule t0 [THEN conjunct2, THEN conjunct2, THEN conjunct2, THEN conjunct2])
  have l5: "length tracksToAdd = 5" using t(2) n(2) by simp
  have first: "\<exists>genre req tracksToAdd rest.
      genre \<in> set genres \<and>
      fst (playerEmpty ''9'' sample_idle sample_empty_env sample_autoplay) =
        Search genre req # QueueAdd tracksToAdd # rest \<and>
      length tracksToAdd = 5 \<and> mset tracksToAdd \<subseteq># mset sample_found"
    using g(1) g(2)[unfolded t(1)] l5 t(3) by (intro exI conjI)
  have off: "autoplay music_init = None \<or>
      (\<exists>gs. autoplay music_init = Some gs \<and> ''9'' \<notin> set gs)"
    by (simp add: music_init_def)
  have second: "fst (playerEmpty ''9'' sample_idle sample_empty_env music_init) = []"
    using autoplay_on_empty [OF perm, where s = music_init and guildId = "''9''"
        and player = sample_idle, THEN conjunct2, THEN mp, OF off] .
  show ?thesis using perm a p r first second by (intro conjI)
qed

subsection \<open>Inactivity timer\<close>

text \<open>
  What holds of the inactivity teardown: the timer that \<^verbatim>\<open>playerEmpty\<close> sets has a delay of
  180000 ms and is stored under the guild; no timer is set in 24/7 mode; a fired timer
  destroys the player exactly when the player exists, has no current track or an empty
  queue, is not playing and the guild is not in \<^verbatim>\<open>twentyFourSeven\<close>; and \<^verbatim>\<open>playerStart\<close>
  clears the stored timer and deletes its entry.
\<close>

lemma teardown_sets_timer:
  assumes "\<not> map_has (twentyFourSeven s) g" "cached"
  shows "teardown g cached s =
     s\<lparr>timers := timers s @
          [\<lparr>handle = nextHandle s, delay = 180000, callback = InactivityCheck g\<rparr>],
       nextHandle := Suc (nextHandle s),
       inactivityTimeouts := map_set g (nextHandle s) (inactivityTimeouts s)\<rparr>"
  using assms by (simp add: teardown_def setTimeout_def)

lemma teardown_247: "map_has (twentyFourSeven s) g \<Longrightarrow> teardown g cached s = s"
  by (simp add: teardown_def)

lemma inactivityCheck_destroys_iff:
  "PlayerDestroy \<in> set (inactivityCheck g currentPlayer s) \<longleftrightarrow>
     (\<exists>p. currentPlayer = Some p \<and> (current p = None \<or> tracks p = []) \<and> \<not> playing p \<and>
          \<not> map_has (twentyFourSeven s) g)"
  by (auto simp: inactivityCheck_def split: option.splits)

lemma inactivity_fire_destroys_iff:
  assumes "find (\<lambda>t. handle t = h) (timers s) = Some t" "callback t = InactivityCheck g"
  shows "PlayerDestroy \<in> set (fst (musicTimerFired h currentPlayer s)) \<longleftrightarrow>
     (\<exists>p. currentPlayer = Some p \<and> (current p = None \<or> tracks p = []) \<and> \<not> playing p \<and>
          \<not> map_has (twentyFourSeven s) g)"
  using assms by (auto simp: musicTimerFired_def Let_def inactivityCheck_def split: option.splits)

lemma playerStart_clears_stored:
  assumes "map_get (inactivityTimeouts s) g = Some h"
  shows "\<not> pending (timers (playerStart g s)) h \<and>
         \<not> map_has (inactivityTimeouts (playerStart g s)) g"
proof -
  have "map_has (inactivityTimeouts s) g"
    using assms by (auto simp: map_has_def map_get_def dest: map_of_SomeD intro: rev_image_eqI)
  then show ?thesis
    using assms
    by (auto simp: playerStart_def clearTimeout_def pending_def clearTimeout_in_def
        map_has_def map_delete_def delete_keys)
qed

text \<open>
  C3, at a failing input. \<^verbatim>\<open>playerEmpty\<close> does not clear the timer that is already stored
  for the guild: after two \<^verbatim>\<open>playerEmpty\<close> events of one guild with no \<^verbatim>\<open>playerStart\<close>
  between them, two inactivity timers of the guild are pending and only the second is
  stored. The \<^verbatim>\<open>playerStart\<close> that follows clears the second only: the first stays pending
  with no entry in \<^verbatim>\<open>inactivityTimeouts\<close>, and destroys an idle player when it fires.
\<close>

theorem inactivity_timer_orphaned:
  "timers (snd (playerEmpty ''9'' sample_idle sample_empty_env
            (snd (playerEmpty ''9'' sample_idle sample_empty_env music_init)))) =
     [\<lparr>handle = 0, delay = 180000, callback = InactivityCheck ''9''\<rparr>,
      \<lparr>handle = 1, delay = 180000, callback = InactivityCheck ''9''\<rparr>] \<and>
   timers (playerStart ''9''
      (snd (playerEmpty ''9'' sample_idle sample_empty_env
         (snd (playerEmpty ''9'' sample_idle sample_empty_env music_init))))) =
     [\<lparr>handle = 0, delay = 180000, callback = InactivityCheck ''9''\<rparr>] \<and>
   inactivityTimeouts (playerStart ''9''
      (snd (playerEmpty ''9'' sample_idle sample_empty_env
         (snd (playerEmpty ''9'' sample_idle sample_empty_env music_init))))) = [] \<and>
   fst (musicTimerFired 0 (Some sample_idle)
      (playerStart ''9''
         (snd (playerEmpty ''9'' sample_idle sample_empty_env
            (snd (playerEmpty ''9'' sample_idle sample_empty_env music_init)))))) =
     [PlayerDestroy, ChannelSend ''Left voice channel due to inactivity.'']"
  by (simp add: playerEmpty_def teardown_def setTimeout_def music_init_def sample_empty_env_def
      sample_idle_def playerStart_def clearTimeout_def clearTimeout_in_def map_has_def
      map_get_def map_set_def map_delete_def musicTimerFired_def inactivityCheck_def Let_def)

subsection \<open>Firing a scheduled timer\<close>

text \<open>
  A timer that was just scheduled has the next handle; when all pending timers have
  smaller handles, firing that handle runs the callback that was scheduled and removes the
  timer.
\<close>

lemma find_fresh_handle:
  assumes "\<forall>t \<in> set ts. handle t < h"
  shows "find (\<lambda>t. handle t = h) (ts @ [\<lparr>handle = h, delay = d, callback = cb\<rparr>]) =
           Some \<lparr>handle = h, delay = d, callback = cb\<rparr>"
    and "clearTimeout_in h (ts @ [\<lparr>handle = h, delay = d, callback = cb\<rparr>]) = ts"
proof -
  have none: "\<forall>t \<in> set ts. handle t \<noteq> h" using assms by auto
  then have "find (\<lambda>t. handle t = h) ts = None" by (simp add: find_None_iff)
  then show "find (\<lambda>t. handle t = h) (ts @ [\<lparr>handle = h, delay = d, callback = cb\<rparr>]) =
      Some \<lparr>handle = h, delay = d, callback = cb\<rparr>"
    by (induction ts) (auto split: if_splits)
  show "clearTimeout_in h (ts @ [\<lparr>handle = h, delay = d, callback = cb\<rparr>]) = ts"
    using none by (simp add: clearTimeout_in_def filter_id_conv)
qed

lemma fire_scheduled:
  assumes "\<forall>t \<in> set (timers s). handle t < nextHandle s"
  shows "musicTimerFired (nextHandle s) currentPlayer (snd (setTimeout cb d s)) =
     ((case cb of
         Reconnect name \<Rightarrow> [ShoukakuReconnect]
       | InactivityCheck g \<Rightarrow>
           inactivityCheck g currentPlayer (s\<lparr>nextHandle := Suc (nextHandle s)\<rparr>)
       | ResumeAfterReplay \<Rightarrow> [PlayerPause False]),
      s\<lparr>nextHandle := Suc (nextHandle s)\<rparr>)"
proof -
  have eq: "(s\<lparr>timers := timers s @ [\<lparr>handle = nextHandle s, delay = d, callback = cb\<rparr>],
             nextHandle := Suc (nextHandle s), timers := timers s\<rparr>) =
            s\<lparr>nextHandle := Suc (nextHandle s)\<rparr>"
    by simp
  show ?thesis
    using find_fresh_handle[OF assms, of d cb] eq
    by (simp add: musicTimerFired_def setTimeout_def Let_def split: callback.splits)
qed

subsection \<open>Reconnect delay\<close>

text \<open>
  C5. A socket error with a non-empty message schedules exactly one timer. Its delay is
  5000 if the message contains AbortError; otherwise 15000 if it contains ECONNREFUSED or
  Connection refused; otherwise 7500 if it contains Transport failed or Connection reset;
  otherwise the default 10000. The branches are tried in this order, as the words
  "default and three branches" say. What the timer runs when it fires is the reconnect
  call of the library, \<^verbatim>\<open>shoukaku.reconnect()\<close>, and nothing else, and the timer is gone
  afterwards. An error without a message (absent or empty) schedules nothing.
\<close>

theorem shoukaku_error_delay:
  "(message = None \<or> message = Some [] \<longrightarrow> shoukaku_error name message s = s) \<and>
   (\<forall>m. message = Some m \<and> m \<noteq> [] \<longrightarrow>
      (\<exists>d. timers (shoukaku_error name message s) =
             timers s @ [\<lparr>handle = nextHandle s, delay = d, callback = Reconnect name\<rparr>] \<and>
           d \<in> {5000, 15000, 7500, 10000} \<and>
           (str_includes m ''AbortError'' \<longrightarrow> d = 5000) \<and>
           (\<not> str_includes m ''AbortError'' \<and>
              (str_includes m ''ECONNREFUSED'' \<or> str_includes m ''Connection refused'')
              \<longrightarrow> d = 15000) \<and>
           (\<not> str_includes m ''AbortError'' \<and> \<not> str_includes m ''ECONNREFUSED'' \<and>
              \<not> str_includes m ''Connection refused'' \<and>
              (str_includes m ''Transport failed'' \<or> str_includes m ''Connection reset'')
              \<longrightarrow> d = 7500) \<and>
           (\<not> str_includes m ''AbortError'' \<and> \<not> str_includes m ''ECONNREFUSED'' \<and>
              \<not> str_includes m ''Connection refused'' \<and> \<not> str_includes m ''Transport failed'' \<and>
              \<not> str_includes m ''Connection reset''
              \<longrightarrow> d = 10000)) \<and>
      ((\<forall>t \<in> set (timers s). handle t < nextHandle s) \<longrightarrow>
         fst (musicTimerFired (nextHandle s) currentPlayer (shoukaku_error name message s)) =
           [ShoukakuReconnect] \<and>
         timers (snd (musicTimerFired (nextHandle s) currentPlayer
                        (shoukaku_error name message s))) = timers s))"
proof (intro conjI allI impI)
  assume "message = None \<or> message = Some []"
  then show "shoukaku_error name message s = s"
    by (auto simp: shoukaku_error_def)
next
  fix m assume "message = Some m \<and> m \<noteq> []"
  then show "\<exists>d. timers (shoukaku_error name message s) =
             timers s @ [\<lparr>handle = nextHandle s, delay = d, callback = Reconnect name\<rparr>] \<and>
           d \<in> {5000, 15000, 7500, 10000} \<and>
           (str_includes m ''AbortError'' \<longrightarrow> d = 5000) \<and>
           (\<not> str_includes m ''AbortError'' \<and>
              (str_includes m ''ECONNREFUSED'' \<or> str_includes m ''Connection refused'')
              \<longrightarrow> d = 15000) \<and>
           (\<not> str_includes m ''AbortError'' \<and> \<not> str_includes m ''ECONNREFUSED'' \<and>
              \<not> str_includes m ''Connection refused'' \<and>
              (str_includes m ''Transport failed'' \<or> str_includes m ''Connection reset'')
              \<longrightarrow> d = 7500) \<and>
           (\<not> str_includes m ''AbortError'' \<and> \<not> str_includes m ''ECONNREFUSED'' \<and>
              \<not> str_includes m ''Connection refused'' \<and> \<not> str_includes m ''Transport failed'' \<and>
              \<not> str_includes m ''Connection reset''
              \<longrightarrow> d = 10000)"
    by (auto simp: shoukaku_error_def setTimeout_def reconnectDelay_def)
next
  fix m assume h: "message = Some m \<and> m \<noteq> []"
    and w: "\<forall>t \<in> set (timers s). handle t < nextHandle s"
  have e: "shoukaku_error name message s = snd (setTimeout (Reconnect name) (reconnectDelay m) s)"
    using h by (simp add: shoukaku_error_def)
  show "fst (musicTimerFired (nextHandle s) currentPlayer (shoukaku_error name message s)) =
      [ShoukakuReconnect]"
    unfolding e fire_scheduled[OF w] by simp
  show "timers (snd (musicTimerFired (nextHandle s) currentPlayer
                        (shoukaku_error name message s))) = timers s"
    unfolding e fire_scheduled[OF w] by simp
qed

theorem shoukaku_error_delay_witness:
  "timers (shoukaku_error ''node'' (Some ''connect ECONNREFUSED 127.0.0.1'') music_init) =
     [\<lparr>handle = 0, delay = 15000, callback = Reconnect ''node''\<rparr>] \<and>
   timers (shoukaku_error ''node'' (Some ''AbortError: ECONNREFUSED'') music_init) =
     [\<lparr>handle = 0, delay = 5000, callback = Reconnect ''node''\<rparr>] \<and>
   shoukaku_error ''node'' None music_init = music_init \<and>
   timers music_init = [] \<and>
   fst (musicTimerFired 0 None
          (shoukaku_error ''node'' (Some ''connect ECONNREFUSED 127.0.0.1'') music_init)) =
     [ShoukakuReconnect]"
  using shoukaku_error_delay [of "Some ''connect ECONNREFUSED 127.0.0.1''" "''node''" music_init None]
    shoukaku_error_delay [of "Some ''AbortError: ECONNREFUSED''" "''node''" music_init None]
    shoukaku_error_delay [of None "''node''" music_init None]
  by (simp add: music_init_def)

subsection \<open>Shuffle\<close>

text \<open>
  The loop of the source, \<^verbatim>\<open>for (let i = a.length - 1; i > 0; i--)\<close> with a swap of
  \<^verbatim>\<open>a[i]\<close> and \<^verbatim>\<open>a[j]\<close>, \<^verbatim>\<open>j = Math.floor(Math.random() * (i + 1))\<close>, permutes the array,
  whatever the draws.
\<close>

lemma swap_mset: "i < length xs \<Longrightarrow> j < length xs \<Longrightarrow> mset (swap i j xs) = mset xs"
  unfolding swap_def by (rule mset_swap)

lemma swap_length: "length (swap i j xs) = length xs"
  by (simp add: swap_def)

lemma fisherYates_length: "length (fisherYates rnd k i a) = length a"
  by (induction i arbitrary: k a) (simp_all add: Let_def swap_length)

lemma fisherYates_mset: "i < length a \<or> i = 0 \<Longrightarrow> mset (fisherYates rnd k i a) = mset a"
proof (induction i arbitrary: k a)
  case 0
  then show ?case by simp
next
  case (Suc i)
  then have len: "Suc i < length a" by simp
  have j: "rnd k mod (Suc i + 1) < length a"
  proof -
    have "rnd k mod (Suc i + 1) < Suc i + 1" by (rule mod_less_divisor) simp
    then show ?thesis using len by linarith
  qed
  have "mset (fisherYates rnd (Suc k) i (swap (Suc i) (rnd k mod (Suc i + 1)) a)) =
      mset (swap (Suc i) (rnd k mod (Suc i + 1)) a)"
    using len by (intro Suc.IH) (simp add: swap_length)
  also have "\<dots> = mset a" using len j by (rule swap_mset)
  finally show ?case by (simp add: Let_def)
qed

lemma fisherYates_loop_mset: "mset (fisherYates rnd k (length a - 1) a) = mset a"
  by (rule fisherYates_mset) (cases a; simp)


lemma shuffleBody_without_property:
  assumes "tracksProperty player = None"
  shows "callsMade (shuffleBody c player env s) = [QueueShuffle, Reply shuffleFailed] \<and>
         mset (queueAfter (shuffleBody c player env s)) = mset (tracks player) \<and>
         stateAfter (shuffleBody c player env s) = s \<and> \<not> threw (shuffleBody c player env s)"
  using assms fisherYates_loop_mset [of "draws env" 0 "tracks player"]
  by (simp add: shuffleBody_def Let_def finished_def)



subsection \<open>Music control buttons\<close>

lemma shuffleBody_shape:
  "\<exists>mid text. callsMade (shuffleBody c player env s) = QueueShuffle # mid @ [Reply text] \<and>
     (text = shuffled \<or> text = shuffleFailed) \<and>
     (\<forall>x \<in> set mid. x = QueueClear \<or> x = PlayerSkip \<or> (\<exists>ts. x = QueueAdd ts) \<or>
        (\<exists>t n. x = QueueInsert t n)) \<and>
     \<not> threw (shuffleBody c player env s) \<and> stateAfter (shuffleBody c player env s) = s"
proof -
  have *: "\<exists>mid text. QueueShuffle # xs @ [Reply t] = QueueShuffle # mid @ [Reply text] \<and>
     (text = shuffled \<or> text = shuffleFailed) \<and>
     (\<forall>x \<in> set mid. x = QueueClear \<or> x = PlayerSkip \<or> (\<exists>ts. x = QueueAdd ts) \<or>
        (\<exists>t n. x = QueueInsert t n))"
    if "t = shuffled \<or> t = shuffleFailed"
      "\<forall>x \<in> set xs. x = QueueClear \<or> x = PlayerSkip \<or> (\<exists>ts. x = QueueAdd ts) \<or>
        (\<exists>t n. x = QueueInsert t n)" for xs t
    using that by blast
  show ?thesis
    unfolding shuffleBody_def Let_def finished_def
    by (auto split: option.splits list.splits
        intro: *[of _ "[]", simplified] *[of _ "[QueueClear]", simplified]
          *[of _ "[QueueClear, QueueAdd r]" for r, simplified]
          *[of _ "[QueueClear, QueueAdd r, QueueInsert f 0]" for r f, simplified]
          *[of _ "[QueueClear, QueueAdd r, QueueInsert f 0, PlayerSkip]" for r f, simplified])
qed

text \<open>
  C2, as amended. Let the player have a current track. The handler of this file acts on
  the buttons \<^verbatim>\<open>skip\<close>, \<^verbatim>\<open>replay\<close>, \<^verbatim>\<open>shuffle\<close>, \<^verbatim>\<open>stop\<close> and the legacy \<^verbatim>\<open>pauseresume\<close>;
  the identifiers \<^verbatim>\<open>pause\<close> and \<^verbatim>\<open>resume\<close> do not pass its gate, and it neither replies
  nor calls the library for them.
  \<^item> A member who is not in the voice channel of the player is refused, whoever requested
    the track, except for \<^verbatim>\<open>stop\<close>.
  \<^item> Otherwise, for \<^verbatim>\<open>skip\<close>, \<^verbatim>\<open>replay\<close>, \<^verbatim>\<open>shuffle\<close> and \<^verbatim>\<open>stop\<close>, a user other than the
    requester of the current track gets a refusal and no library method is called.
  \<^item> For the requester, \<^verbatim>\<open>skip\<close> calls \<^verbatim>\<open>player.skip()\<close> and replies, unless the call
    throws, which ends the handler without a reply.
  \<^item> For the requester, \<^verbatim>\<open>replay\<close> calls \<^verbatim>\<open>seek(0)\<close>, then \<^verbatim>\<open>pause(true)\<close>, then schedules
    a timer of 500 ms and replies. If \<^verbatim>\<open>seek\<close> rejects, nothing follows it; if \<^verbatim>\<open>pause\<close>
    rejects, no timer is scheduled and no reply is sent. When the timer fires it calls
    \<^verbatim>\<open>pause(false)\<close>.
  \<^item> For the requester, \<^verbatim>\<open>shuffle\<close> with a non-empty queue calls the queue's \<^verbatim>\<open>shuffle\<close>
    first and ends with exactly one reply, which says that the tracks were shuffled or
    that the shuffle failed; in between there are only calls of the queue's \<^verbatim>\<open>clear\<close> and
    \<^verbatim>\<open>add\<close> and of \<^verbatim>\<open>skip\<close>. When the queue has no property \<^verbatim>\<open>tracks\<close>, as with the
    library's queue, the calls are the queue's \<^verbatim>\<open>shuffle\<close> and the reply that the shuffle
    failed. With an empty queue there is only a notice.
  \<^item> For the requester, \<^verbatim>\<open>stop\<close> sends the end message when the text channel is cached;
    then, unless the player is destroyed, it clears the queue and, if that did not throw,
    sends a stop to the node when the node can be sent to and disconnects from voice
    when \<^verbatim>\<open>player.voiceId\<close> is truthy and the bot is in a voice channel of the cached
    guild; then it replies. It never calls \<^verbatim>\<open>destroy\<close>.
  \<^item> \<^verbatim>\<open>pauseresume\<close> only replies with a notice, without a requester check.
\<close>

theorem music_buttons:
  assumes "current player = Some t"
  shows
    "(customId i \<in> {''skip'', ''replay'', ''shuffle'', ''pauseresume''} \<and>
        (memberVoice i = None \<or> memberVoice i \<noteq> voiceId player) \<longrightarrow>
          musicButton i (Some player) env s =
            finished [Reply voiceRefusal] (tracks player) s) \<and>
     (customId i \<in> {''skip'', ''replay'', ''shuffle''} \<and>
        memberVoice i \<noteq> None \<and> memberVoice i = voiceId player \<and> requester t \<noteq> userId i \<longrightarrow>
          musicButton i (Some player) env s =
            finished [Reply requesterRefusal] (tracks player) s) \<and>
     (customId i = ''stop'' \<and> requester t \<noteq> userId i \<longrightarrow>
          musicButton i (Some player) env s = finished [Reply stopRefusal] (tracks player) s) \<and>
     (customId i = ''skip'' \<and> memberVoice i \<noteq> None \<and> memberVoice i = voiceId player \<and>
        requester t = userId i \<longrightarrow>
          callsMade (musicButton i (Some player) env s) =
            PlayerSkip #
            (if rejects env PlayerSkip then [] else [Reply ''Skipped to the next track!'']) \<and>
          (threw (musicButton i (Some player) env s) \<longleftrightarrow> rejects env PlayerSkip)) \<and>
     (customId i = ''replay'' \<and> memberVoice i \<noteq> None \<and> memberVoice i = voiceId player \<and>
        requester t = userId i \<longrightarrow>
          callsMade (musicButton i (Some player) env s) =
            (if rejects env (PlayerSeek 0) then [PlayerSeek 0]
             else if rejects env (PlayerPause True) then [PlayerSeek 0, PlayerPause True]
             else [PlayerSeek 0, PlayerPause True,
                   Reply ''Stopped and restarted the current track!'']) \<and>
          (threw (musicButton i (Some player) env s) \<longleftrightarrow>
             rejects env (PlayerSeek 0) \<or> rejects env (PlayerPause True)) \<and>
          (rejects env (PlayerSeek 0) \<or> rejects env (PlayerPause True) \<longrightarrow>
             stateAfter (musicButton i (Some player) env s) = s) \<and>
          (\<not> rejects env (PlayerSeek 0) \<and> \<not> rejects env (PlayerPause True) \<longrightarrow>
             timers (stateAfter (musicButton i (Some player) env s)) =
               timers s @ [\<lparr>handle = nextHandle s, delay = 500, callback = ResumeAfterReplay\<rparr>] \<and>
             ((\<forall>x \<in> set (timers s). handle x < nextHandle s) \<longrightarrow>
                fst (musicTimerFired (nextHandle s) currentPlayer
                       (stateAfter (musicButton i (Some player) env s))) =
                  [PlayerPause False]))) \<and>
     (customId i = ''shuffle'' \<and> memberVoice i \<noteq> None \<and> memberVoice i = voiceId player \<and>
        requester t = userId i \<and> tracks player \<noteq> [] \<longrightarrow>
          (\<exists>mid text. callsMade (musicButton i (Some player) env s) =
               QueueShuffle # mid @ [Reply text] \<and>
             (text = shuffled \<or> text = shuffleFailed) \<and>
             (\<forall>x \<in> set mid. x = QueueClear \<or> x = PlayerSkip \<or> (\<exists>ts. x = QueueAdd ts) \<or>
                (\<exists>t n. x = QueueInsert t n))) \<and>
          (tracksProperty player = None \<longrightarrow>
             callsMade (musicButton i (Some player) env s) =
               [QueueShuffle, Reply shuffleFailed]) \<and>
          \<not> threw (musicButton i (Some player) env s)) \<and>
     (customId i = ''shuffle'' \<and> memberVoice i \<noteq> None \<and> memberVoice i = voiceId player \<and>
        requester t = userId i \<and> tracks player = [] \<longrightarrow>
          musicButton i (Some player) env s =
            finished
              [Reply ''No additional tracks in queue. Add more songs to create a shuffle mix!'']
              (tracks player) s) \<and>
     (customId i = ''stop'' \<and> requester t = userId i \<longrightarrow>
          callsMade (musicButton i (Some player) env s) =
            (if textChannelCached env then [ChannelSend ''Queue Ended''] else []) @
            (if destroyed player then []
             else if rejects env QueueClear then [QueueClear]
             else [QueueClear] @
                  (if nodeCanSend env then [NodeSend ''stop''] else []) @
                  (if (\<exists>v. voiceId player = Some v \<and> v \<noteq> []) \<and> botInVoice env
                   then [VoiceDisconnect] else [])) @
            [Reply stopped] \<and>
          PlayerDestroy \<notin> set (callsMade (musicButton i (Some player) env s)) \<and>
          \<not> threw (musicButton i (Some player) env s)) \<and>
     (customId i = ''pauseresume'' \<and> memberVoice i \<noteq> None \<and> memberVoice i = voiceId player \<longrightarrow>
          musicButton i (Some player) env s =
            finished
              [Reply ''Pause/Resume button logic has been updated. Please use the new controls.'']
              (tracks player) s) \<and>
     (customId i = ''pause'' \<or> customId i = ''resume'' \<longrightarrow>
          musicButton i (Some player) env s = finished [] (tracks player) s)"
proof (intro conjI impI; (elim conjE)?)
  assume "customId i \<in> {''skip'', ''replay'', ''shuffle'', ''pauseresume''}"
    "memberVoice i = None \<or> memberVoice i \<noteq> voiceId player"
  then show "musicButton i (Some player) env s = finished [Reply voiceRefusal] (tracks player) s"
    by (auto simp: musicButton_def)
next
  assume "customId i \<in> {''skip'', ''replay'', ''shuffle''}" "memberVoice i \<noteq> None"
    "memberVoice i = voiceId player" "requester t \<noteq> userId i"
  then show "musicButton i (Some player) env s =
      finished [Reply requesterRefusal] (tracks player) s"
    using assms by (auto simp: musicButton_def switchButton_def notRequester_def)
next
  assume "customId i = ''stop''" "requester t \<noteq> userId i"
  then show "musicButton i (Some player) env s = finished [Reply stopRefusal] (tracks player) s"
    using assms by (simp add: musicButton_def switchButton_def)
next
  assume h: "customId i = ''skip''" "memberVoice i \<noteq> None" "memberVoice i = voiceId player"
    "requester t = userId i"
  then have e: "musicButton i (Some player) env s =
      (if rejects env PlayerSkip then aborted [PlayerSkip] (tracks player) s
       else finished [PlayerSkip, Reply ''Skipped to the next track!''] (tracks player) s)"
    using assms by (auto simp: musicButton_def switchButton_def notRequester_def)
  show "callsMade (musicButton i (Some player) env s) =
      PlayerSkip # (if rejects env PlayerSkip then [] else [Reply ''Skipped to the next track!''])"
    unfolding e by (simp add: aborted_def finished_def)
  show "threw (musicButton i (Some player) env s) \<longleftrightarrow> rejects env PlayerSkip"
    unfolding e by (simp add: aborted_def finished_def)
next
  assume h: "customId i = ''replay''" "memberVoice i \<noteq> None" "memberVoice i = voiceId player"
    "requester t = userId i"
  then have e: "musicButton i (Some player) env s =
      (if rejects env (PlayerSeek 0) then aborted [PlayerSeek 0] (tracks player) s
       else if rejects env (PlayerPause True) then
         aborted [PlayerSeek 0, PlayerPause True] (tracks player) s
       else finished [PlayerSeek 0, PlayerPause True,
                      Reply ''Stopped and restarted the current track!'']
              (tracks player) (snd (setTimeout ResumeAfterReplay 500 s)))"
    using assms by (auto simp: musicButton_def switchButton_def)
  show "callsMade (musicButton i (Some player) env s) =
            (if rejects env (PlayerSeek 0) then [PlayerSeek 0]
             else if rejects env (PlayerPause True) then [PlayerSeek 0, PlayerPause True]
             else [PlayerSeek 0, PlayerPause True,
                   Reply ''Stopped and restarted the current track!''])"
    unfolding e by (simp add: aborted_def finished_def)
  show "threw (musicButton i (Some player) env s) \<longleftrightarrow>
             rejects env (PlayerSeek 0) \<or> rejects env (PlayerPause True)"
    unfolding e by (simp add: aborted_def finished_def)
  {
    assume "rejects env (PlayerSeek 0) \<or> rejects env (PlayerPause True)"
    then show "stateAfter (musicButton i (Some player) env s) = s"
      unfolding e by (auto simp: aborted_def)
  }
  {
    assume n: "\<not> rejects env (PlayerSeek 0)" "\<not> rejects env (PlayerPause True)"
    then have st: "stateAfter (musicButton i (Some player) env s) =
        snd (setTimeout ResumeAfterReplay 500 s)"
      unfolding e by (simp add: finished_def)
    show "timers (stateAfter (musicButton i (Some player) env s)) =
        timers s @ [\<lparr>handle = nextHandle s, delay = 500, callback = ResumeAfterReplay\<rparr>]"
      unfolding st by (simp add: setTimeout_def)
    {
      assume w: "\<forall>x \<in> set (timers s). handle x < nextHandle s"
      show "fst (musicTimerFired (nextHandle s) currentPlayer
                 (stateAfter (musicButton i (Some player) env s))) = [PlayerPause False]"
        unfolding st fire_scheduled [OF w] by simp
    }
  }
next
  assume h: "customId i = ''shuffle''" "memberVoice i \<noteq> None" "memberVoice i = voiceId player"
    "requester t = userId i" "tracks player \<noteq> []"
  then have e: "musicButton i (Some player) env s = shuffleBody t player env s"
    using assms by (auto simp: musicButton_def switchButton_def)
  show "\<exists>mid text. callsMade (musicButton i (Some player) env s) =
               QueueShuffle # mid @ [Reply text] \<and>
             (text = shuffled \<or> text = shuffleFailed) \<and>
             (\<forall>x \<in> set mid. x = QueueClear \<or> x = PlayerSkip \<or> (\<exists>ts. x = QueueAdd ts) \<or>
                (\<exists>t n. x = QueueInsert t n))"
    unfolding e using shuffleBody_shape [of t player env s] by blast
  show "\<not> threw (musicButton i (Some player) env s)"
    unfolding e using shuffleBody_shape [of t player env s] by blast
  {
    assume "tracksProperty player = None"
    then show "callsMade (musicButton i (Some player) env s) =
        [QueueShuffle, Reply shuffleFailed]"
      unfolding e using shuffleBody_without_property [of player t env s] by simp
  }
next
  assume "customId i = ''shuffle''" "memberVoice i \<noteq> None" "memberVoice i = voiceId player"
    "requester t = userId i" "tracks player = []"
  then show "musicButton i (Some player) env s =
      finished [Reply ''No additional tracks in queue. Add more songs to create a shuffle mix!'']
        (tracks player) s"
    using assms by (auto simp: musicButton_def switchButton_def)
next
  assume h: "customId i = ''stop''" "requester t = userId i"
  then have e: "musicButton i (Some player) env s = stopBody player env s"
    using assms by (simp add: musicButton_def switchButton_def)
  have v: "(case voiceId player of None \<Rightarrow> False | Some v \<Rightarrow> v \<noteq> []) \<longleftrightarrow>
      (\<exists>v. voiceId player = Some v \<and> v \<noteq> [])"
    by (cases "voiceId player") auto
  show "callsMade (musicButton i (Some player) env s) =
            (if textChannelCached env then [ChannelSend ''Queue Ended''] else []) @
            (if destroyed player then []
             else if rejects env QueueClear then [QueueClear]
             else [QueueClear] @
                  (if nodeCanSend env then [NodeSend ''stop''] else []) @
                  (if (\<exists>v. voiceId player = Some v \<and> v \<noteq> []) \<and> botInVoice env
                   then [VoiceDisconnect] else [])) @
            [Reply stopped]"
    unfolding e v [symmetric] by (simp add: stopBody_def Let_def finished_def)
  show "PlayerDestroy \<notin> set (callsMade (musicButton i (Some player) env s))"
    unfolding e by (simp add: stopBody_def Let_def finished_def)
  show "\<not> threw (musicButton i (Some player) env s)"
    unfolding e by (simp add: stopBody_def Let_def finished_def)
next
  assume "customId i = ''pauseresume''" "memberVoice i \<noteq> None" "memberVoice i = voiceId player"
  then show "musicButton i (Some player) env s =
      finished
        [Reply ''Pause/Resume button logic has been updated. Please use the new controls.'']
        (tracks player) s"
    by (auto simp: musicButton_def switchButton_def)
next
  assume "customId i = ''pause'' \<or> customId i = ''resume''"
  then show "musicButton i (Some player) env s = finished [] (tracks player) s"
    by (auto simp: musicButton_def)
qed

theorem music_buttons_witness:
  "current sample_playing = Some (sample_track ''u1'' ''7'') \<and>
   callsMade (musicButton (sample_press ''skip'' ''7'' (Some ''40'')) (Some sample_playing)
          sample_button_env music_init) = [PlayerSkip, Reply ''Skipped to the next track!''] \<and>
   callsMade (musicButton (sample_press ''skip'' ''8'' (Some ''40'')) (Some sample_playing)
          sample_button_env music_init) = [Reply requesterRefusal] \<and>
   callsMade (musicButton (sample_press ''stop'' ''8'' None) (Some sample_playing)
          sample_button_env music_init) = [Reply stopRefusal] \<and>
   callsMade (musicButton (sample_press ''replay'' ''7'' None) (Some sample_playing)
          sample_button_env music_init) = [Reply voiceRefusal] \<and>
   callsMade (musicButton (sample_press ''replay'' ''7'' (Some ''40'')) (Some sample_playing)
          sample_button_env music_init) =
     [PlayerSeek 0, PlayerPause True, Reply ''Stopped and restarted the current track!''] \<and>
   timers music_init = [] \<and>
   fst (musicTimerFired 0 None
          (stateAfter (musicButton (sample_press ''replay'' ''7'' (Some ''40''))
             (Some sample_playing) sample_button_env music_init))) = [PlayerPause False] \<and>
   callsMade (musicButton (sample_press ''shuffle'' ''7'' (Some ''40'')) (Some sample_playing)
          sample_button_env music_init) = [QueueShuffle, Reply shuffleFailed] \<and>
   callsMade (musicButton (sample_press ''stop'' ''7'' None) (Some sample_playing)
          sample_button_env music_init) =
     [ChannelSend ''Queue Ended'', QueueClear, NodeSend ''stop'', VoiceDisconnect,
      Reply stopped]"
proof -
  have cur: "current sample_playing = Some (sample_track ''u1'' ''7'')"
    by (simp add: sample_playing_def)
  have h1: "customId (sample_press ''skip'' ''7'' (Some ''40'')) = ''skip'' \<and>
      memberVoice (sample_press ''skip'' ''7'' (Some ''40'')) \<noteq> None \<and>
      memberVoice (sample_press ''skip'' ''7'' (Some ''40'')) = voiceId sample_playing \<and>
      requester (sample_track ''u1'' ''7'') = userId (sample_press ''skip'' ''7'' (Some ''40''))"
    by (simp add: sample_press_def sample_playing_def sample_track_def)
  have h2: "customId (sample_press ''skip'' ''8'' (Some ''40'')) \<in> {''skip'', ''replay'', ''shuffle''} \<and>
      memberVoice (sample_press ''skip'' ''8'' (Some ''40'')) \<noteq> None \<and>
      memberVoice (sample_press ''skip'' ''8'' (Some ''40'')) = voiceId sample_playing \<and>
      requester (sample_track ''u1'' ''7'') \<noteq> userId (sample_press ''skip'' ''8'' (Some ''40''))"
    by (simp add: sample_press_def sample_playing_def sample_track_def)
  have h3: "customId (sample_press ''stop'' ''8'' None) = ''stop'' \<and>
      requester (sample_track ''u1'' ''7'') \<noteq> userId (sample_press ''stop'' ''8'' None)"
    by (simp add: sample_press_def sample_track_def)
  have h4: "customId (sample_press ''replay'' ''7'' None) \<in>
        {''skip'', ''replay'', ''shuffle'', ''pauseresume''} \<and>
      (memberVoice (sample_press ''replay'' ''7'' None) = None \<or>
       memberVoice (sample_press ''replay'' ''7'' None) \<noteq> voiceId sample_playing)"
    by (simp add: sample_press_def)
  have h5: "customId (sample_press ''replay'' ''7'' (Some ''40'')) = ''replay'' \<and>
      memberVoice (sample_press ''replay'' ''7'' (Some ''40'')) \<noteq> None \<and>
      memberVoice (sample_press ''replay'' ''7'' (Some ''40'')) = voiceId sample_playing \<and>
      requester (sample_track ''u1'' ''7'') =
        userId (sample_press ''replay'' ''7'' (Some ''40''))"
    by (simp add: sample_press_def sample_playing_def sample_track_def)
  have h6: "customId (sample_press ''shuffle'' ''7'' (Some ''40'')) = ''shuffle'' \<and>
      memberVoice (sample_press ''shuffle'' ''7'' (Some ''40'')) \<noteq> None \<and>
      memberVoice (sample_press ''shuffle'' ''7'' (Some ''40'')) = voiceId sample_playing \<and>
      requester (sample_track ''u1'' ''7'') =
        userId (sample_press ''shuffle'' ''7'' (Some ''40'')) \<and>
      tracks sample_playing \<noteq> []"
    by (simp add: sample_press_def sample_playing_def sample_track_def)
  have h8: "customId (sample_press ''stop'' ''7'' None) = ''stop'' \<and>
      requester (sample_track ''u1'' ''7'') = userId (sample_press ''stop'' ''7'' None)"
    by (simp add: sample_press_def sample_track_def)
  have rj: "\<not> rejects sample_button_env c" for c
    by (simp add: sample_button_env_def)
  have fresh: "\<forall>x \<in> set (timers music_init). handle x < nextHandle music_init"
    by (simp add: music_init_def)
  have tp: "tracksProperty sample_playing = None"
    by (simp add: sample_playing_def)
  note a = music_buttons [OF cur, of "sample_press ''skip'' ''7'' (Some ''40'')"
      sample_button_env music_init, THEN conjunct2, THEN conjunct2, THEN conjunct2,
      THEN conjunct1, THEN mp, OF h1, THEN conjunct1]
  note b = music_buttons [OF cur, of "sample_press ''skip'' ''8'' (Some ''40'')"
      sample_button_env music_init, THEN conjunct2, THEN conjunct1, THEN mp, OF h2]
  note c = music_buttons [OF cur, of "sample_press ''stop'' ''8'' None"
      sample_button_env music_init, THEN conjunct2, THEN conjunct2, THEN conjunct1,
      THEN mp, OF h3]
  note d = music_buttons [OF cur, of "sample_press ''replay'' ''7'' None"
      sample_button_env music_init, THEN conjunct1, THEN mp, OF h4]
  note e = music_buttons [OF cur, of "sample_press ''replay'' ''7'' (Some ''40'')"
      sample_button_env music_init None, THEN conjunct2, THEN conjunct2, THEN conjunct2,
      THEN conjunct2, THEN conjunct1, THEN mp, OF h5]
  note f = music_buttons [OF cur, of "sample_press ''shuffle'' ''7'' (Some ''40'')"
      sample_button_env music_init, THEN conjunct2, THEN conjunct2, THEN conjunct2,
      THEN conjunct2, THEN conjunct2, THEN conjunct1, THEN mp, OF h6,
      THEN conjunct2, THEN conjunct1, THEN mp, OF tp]
  note g = music_buttons [OF cur, of "sample_press ''stop'' ''7'' None"
      sample_button_env music_init, THEN conjunct2, THEN conjunct2, THEN conjunct2,
      THEN conjunct2, THEN conjunct2, THEN conjunct2, THEN conjunct2, THEN conjunct1,
      THEN mp, OF h8, THEN conjunct1]
  have a': "callsMade (musicButton (sample_press ''skip'' ''7'' (Some ''40''))
      (Some sample_playing) sample_button_env music_init) =
      [PlayerSkip, Reply ''Skipped to the next track!'']"
    using a by (simp add: rj)
  have e1: "callsMade (musicButton (sample_press ''replay'' ''7'' (Some ''40''))
      (Some sample_playing) sample_button_env music_init) =
      [PlayerSeek 0, PlayerPause True, Reply ''Stopped and restarted the current track!'']"
    using e [THEN conjunct1] by (simp add: rj)
  have e2: "fst (musicTimerFired 0 None
          (stateAfter (musicButton (sample_press ''replay'' ''7'' (Some ''40''))
             (Some sample_playing) sample_button_env music_init))) = [PlayerPause False]"
    using e [THEN conjunct2, THEN conjunct2, THEN conjunct2] fresh
    by (simp add: rj music_init_def)
  have g': "callsMade (musicButton (sample_press ''stop'' ''7'' None) (Some sample_playing)
          sample_button_env music_init) =
     [ChannelSend ''Queue Ended'', QueueClear, NodeSend ''stop'', VoiceDisconnect,
      Reply stopped]"
    using g by (simp add: rj sample_button_env_def sample_playing_def)
  have b': "callsMade (musicButton (sample_press ''skip'' ''8'' (Some ''40''))
      (Some sample_playing) sample_button_env music_init) = [Reply requesterRefusal]"
    using b by (simp add: finished_def)
  have c': "callsMade (musicButton (sample_press ''stop'' ''8'' None) (Some sample_playing)
          sample_button_env music_init) = [Reply stopRefusal]"
    using c by (simp add: finished_def)
  have d': "callsMade (musicButton (sample_press ''replay'' ''7'' None) (Some sample_playing)
          sample_button_env music_init) = [Reply voiceRefusal]"
    using d by (simp add: finished_def)
  have none: "timers music_init = []"
    by (simp add: music_init_def)
  show ?thesis using cur a' b' c' d' e1 none e2 f g' by (intro conjI)
qed

text \<open>
  The claim as stated fails: the requester who presses \<^verbatim>\<open>skip\<close> outside the voice channel
  is refused and \<^verbatim>\<open>skip\<close> is not called; for \<^verbatim>\<open>pause\<close> and \<^verbatim>\<open>resume\<close> the handler neither
  calls \<^verbatim>\<open>pause\<close> for the requester nor refuses another user; and \<^verbatim>\<open>stop\<close> pressed by the
  requester does not call \<^verbatim>\<open>destroy\<close>.
\<close>

theorem music_buttons_counterexample:
  "current sample_playing = Some (sample_track ''u1'' ''7'') \<and>
   requester (sample_track ''u1'' ''7'') = userId (sample_press ''skip'' ''7'' None) \<and>
   callsMade (musicButton (sample_press ''skip'' ''7'' None) (Some sample_playing)
          sample_button_env music_init) = [Reply voiceRefusal] \<and>
   callsMade (musicButton (sample_press ''pause'' ''7'' (Some ''40'')) (Some sample_playing)
          sample_button_env music_init) = [] \<and>
   callsMade (musicButton (sample_press ''resume'' ''8'' (Some ''40'')) (Some sample_playing)
          sample_button_env music_init) = [] \<and>
   PlayerDestroy \<notin> set (callsMade (musicButton (sample_press ''stop'' ''7'' (Some ''40''))
          (Some sample_playing) sample_button_env music_init))"
  by (simp add: musicButton_def switchButton_def stopBody_def Let_def finished_def
      sample_press_def sample_playing_def sample_track_def sample_button_env_def)

subsection \<open>Keep-alive routes\<close>

text \<open>
  C10, as amended. No keep-alive response depends on the request. The music bot answers
  the fixed string "Bot is running!" and the poll bot the fixed string "Bot is online";
  the giveaway bot answers "<name> is running!", where the name is the bot's user name
  when it is known and not empty, and "Giveaway Bot" otherwise.
\<close>

theorem keepalive_responses:
  "music_keepalive req s = ''Bot is running!'' \<and>
   music_keepalive req s = music_keepalive req' s' \<and>
   poll_keepalive req = ''Bot is online'' \<and>
   poll_keepalive req = poll_keepalive req' \<and>
   giveaway_keepalive req username = giveaway_keepalive req' username \<and>
   giveaway_keepalive req None = ''Giveaway Bot is running!'' \<and>
   giveaway_keepalive req (Some []) = ''Giveaway Bot is running!'' \<and>
   giveaway_keepalive req (Some (c # cs)) = (c # cs) @ '' is running!''"
  by (simp add: music_keepalive_def poll_keepalive_def giveaway_keepalive_def)

text \<open>
  The claim as stated fails: the giveaway bot's response changes with the bot's user name,
  and the poll bot's response is not the "is running" string.
\<close>

theorem keepalive_static_counterexample:
  "giveaway_keepalive () (Some ''Sorteo'') = ''Sorteo is running!'' \<and>
   giveaway_keepalive () (Some ''Raffle'') = ''Raffle is running!'' \<and>
   giveaway_keepalive () (Some ''Sorteo'') \<noteq> giveaway_keepalive () (Some ''Raffle'') \<and>
   poll_keepalive () \<noteq> ''Bot is running!''"
  by (simp add: giveaway_keepalive_def poll_keepalive_def)

end
